theory Spec2Isabelle
  imports Complex_Main "HOL-Library.Sublist" "HOL-Library.Monad_Syntax"
begin

text \<open>
  A model of the two Python programs of the repository, \<open>backend/app.py\<close> (a command-line
  tool) and \<open>backend/web_app.py\<close> (a Flask application), restricted to the loop both are
  built around: ask a model for a function and its tests, extract the code from the reply
  with regular expressions, write it to two files, run pytest, and ask again on failure.

  Python strings are modelled as \<open>string\<close>, one \<open>char\<close> per code point, so the model
  covers texts whose code points are below 256. Exceptions are values: a function that
  may raise returns a sum whose left summand is the exception. The file system, the model
  endpoint and the pytest process are outside the programs; they appear as a map from
  paths to contents and as two functions of an environment record. What the programs
  print is not modelled.
\<close>

section \<open>Text primitives\<close>

text \<open>
  \<open>isspace\<close> is the set of characters that \<open>str.strip()\<close> removes and that \<open>\s\<close>
  matches; \<open>isword\<close> is the set that \<open>\w\<close> matches (alphanumeric characters and the
  underscore), both for code points below 256.
\<close>

definition isspace :: "char \<Rightarrow> bool" where
  "isspace c = (c \<in> set [CHR 0x09, CHR 0x0A, CHR 0x0B, CHR 0x0C, CHR 0x0D, CHR 0x1C,
                         CHR 0x1D, CHR 0x1E, CHR 0x1F, CHR 0x20, CHR 0x85, CHR 0xA0])"

definition isword :: "char \<Rightarrow> bool" where
  "isword c = (let n = (of_char c :: nat) in
     (48 \<le> n \<and> n \<le> 57) \<or> (65 \<le> n \<and> n \<le> 90) \<or> n = 95 \<or> (97 \<le> n \<and> n \<le> 122) \<or>
     n \<in> set [170, 178, 179, 181, 185, 186, 188, 189, 190] \<or>
     (192 \<le> n \<and> n \<le> 214) \<or> (216 \<le> n \<and> n \<le> 246) \<or> 248 \<le> n)"

definition strip :: "string \<Rightarrow> string" where
  "strip s = rev (dropWhile isspace (rev (dropWhile isspace s)))"

text \<open>\<open>sep.join(xs)\<close>.\<close>

fun join :: "string \<Rightarrow> string list \<Rightarrow> string" where
  "join sep [] = []"
| "join sep [x] = x"
| "join sep (x # y # ys) = x @ sep @ join sep (y # ys)"

text \<open>
  The building blocks of the four regular expressions of the extractor. Each takes the
  text at the current position and returns what is left after the match, or \<open>None\<close>.
  \<open>strip_prefix\<close> matches a literal. \<open>greedy_plus P\<close> and \<open>greedy_star P\<close> match
  \<open>X+\<close> and \<open>X*\<close> for a character class \<open>X\<close> by taking the longest run: in the
  patterns below each such run is followed by something that must start with a character
  outside the class (\<open>\s+\<close> by a word character or \<open>test_\<close>, \<open>\w+\<close> by an opening
  parenthesis, \<open>[^)]*\<close> by a closing one), so that a backtracking matcher giving back
  part of the run cannot succeed where the longest run fails. \<open>not_followed_by\<close> is the
  negative lookahead \<open>(?!...)\<close>. \<open>lazy_until_lit d\<close> is \<open>(.*?)\<close> followed by the
  literal \<open>d\<close> under \<open>re.DOTALL\<close>: the group is the text up to the first occurrence of
  \<open>d\<close>. \<open>lazy_until ahead\<close> is \<open>.*?\<close> followed by a lookahead: it stops at the first
  position where the lookahead holds.
\<close>

fun strip_prefix :: "string \<Rightarrow> string \<Rightarrow> string option" where
  "strip_prefix [] s = Some s"
| "strip_prefix (p # ps) [] = None"
| "strip_prefix (p # ps) (c # cs) = (if p = c then strip_prefix ps cs else None)"

definition greedy_plus :: "(char \<Rightarrow> bool) \<Rightarrow> string \<Rightarrow> string option" where
  "greedy_plus P s = (if takeWhile P s = [] then None else Some (dropWhile P s))"

definition greedy_star :: "(char \<Rightarrow> bool) \<Rightarrow> string \<Rightarrow> string option" where
  "greedy_star P s = Some (dropWhile P s)"

definition not_followed_by :: "string \<Rightarrow> string \<Rightarrow> string option" where
  "not_followed_by p s = (case strip_prefix p s of Some _ \<Rightarrow> None | None \<Rightarrow> Some s)"

fun lazy_until_lit :: "string \<Rightarrow> string \<Rightarrow> (string \<times> string) option" where
  "lazy_until_lit d [] = (case strip_prefix d [] of Some r \<Rightarrow> Some ([], r) | None \<Rightarrow> None)"
| "lazy_until_lit d (c # cs) =
     (case strip_prefix d (c # cs) of
        Some r \<Rightarrow> Some ([], r)
      | None \<Rightarrow> (case lazy_until_lit d cs of None \<Rightarrow> None | Some (b, r) \<Rightarrow> Some (c # b, r)))"

fun lazy_until :: "(string \<Rightarrow> bool) \<Rightarrow> string \<Rightarrow> string option" where
  "lazy_until ahead [] = (if ahead [] then Some [] else None)"
| "lazy_until ahead (c # cs) = (if ahead (c # cs) then Some (c # cs) else lazy_until ahead cs)"

text \<open>
  \<open>re.findall\<close> for a pattern with one group: scan from the left, at each position try
  the pattern, collect the group of each match and resume after the match. None of the
  four patterns matches the empty string (lemma \<open>matchers_consume\<close>), so the test that
  the match consumed something always succeeds; it is what makes the recursion terminate.
\<close>

function findall :: "(string \<Rightarrow> (string \<times> string) option) \<Rightarrow> string \<Rightarrow> string list" where
  "findall m s =
     (case m s of
        Some (g, rest) \<Rightarrow> if length rest < length s then g # findall m rest else [g]
      | None \<Rightarrow> (case s of [] \<Rightarrow> [] | c # cs \<Rightarrow> findall m cs))"
  by pat_completeness auto
termination
  by (relation "measure (\<lambda>(m, s). length s)") auto

declare findall.simps [simp del]

section \<open>The extractor's four patterns\<close>

text \<open>
  \<^verbatim>\<open>```(?:python)?\n(.*?)```\<close> is \<open>match_fenced\<close>: the optional tag is tried first, and
  skipped when the rest does not match with it. \<^verbatim>\<open>\[PYTHON\](.*?)\[/PYTHON\]\<close> is
  \<open>match_python\<close>. \<^verbatim>\<open>(def\s+(?!test_)\w+\([^)]*\):.*?)(?=def\s+test_|\Z)\<close> is
  \<open>match_func\<close>, made of the header \<open>func_header\<close>, the lazy body and the lookahead
  \<open>func_ahead\<close>; \<^verbatim>\<open>(def\s+test_\w+\([^)]*\):.*?)(?=def\s+|\Z)\<close> is \<open>match_test\<close>, made of
  \<open>test_header\<close> and \<open>test_ahead\<close>. The group of the last two is the whole match,
  \<open>matched\<close> cuts it out of the text.
\<close>

definition match_fenced :: "string \<Rightarrow> (string \<times> string) option" where
  "match_fenced s =
     (case strip_prefix ''```'' s of
        None \<Rightarrow> None
      | Some r \<Rightarrow>
          (case strip_prefix ''python'' r \<bind> strip_prefix ''\<newline>'' \<bind> lazy_until_lit ''```'' of
             Some m \<Rightarrow> Some m
           | None \<Rightarrow> strip_prefix ''\<newline>'' r \<bind> lazy_until_lit ''```''))"

definition match_python :: "string \<Rightarrow> (string \<times> string) option" where
  "match_python s = strip_prefix ''[PYTHON]'' s \<bind> lazy_until_lit ''[/PYTHON]''"

definition func_header :: "string \<Rightarrow> string option" where
  "func_header s =
     strip_prefix ''def'' s \<bind> greedy_plus isspace \<bind> not_followed_by ''test_'' \<bind>
     greedy_plus isword \<bind> strip_prefix ''('' \<bind> greedy_star (\<lambda>c. c \<noteq> CHR '')'') \<bind>
     strip_prefix '')'' \<bind> strip_prefix '':''"

definition test_header :: "string \<Rightarrow> string option" where
  "test_header s =
     strip_prefix ''def'' s \<bind> greedy_plus isspace \<bind> strip_prefix ''test_'' \<bind>
     greedy_plus isword \<bind> strip_prefix ''('' \<bind> greedy_star (\<lambda>c. c \<noteq> CHR '')'') \<bind>
     strip_prefix '')'' \<bind> strip_prefix '':''"

definition func_ahead :: "string \<Rightarrow> bool" where
  "func_ahead s =
     (case strip_prefix ''def'' s \<bind> greedy_plus isspace \<bind> strip_prefix ''test_'' of
        Some _ \<Rightarrow> True
      | None \<Rightarrow> s = [])"

definition test_ahead :: "string \<Rightarrow> bool" where
  "test_ahead s =
     (case strip_prefix ''def'' s \<bind> greedy_plus isspace of
        Some _ \<Rightarrow> True
      | None \<Rightarrow> s = [])"

definition matched :: "string \<Rightarrow> string \<Rightarrow> (string \<times> string) option" where
  "matched s rest = Some (take (length s - length rest) s, rest)"

definition match_func :: "string \<Rightarrow> (string \<times> string) option" where
  "match_func s = func_header s \<bind> lazy_until func_ahead \<bind> matched s"

definition match_test :: "string \<Rightarrow> (string \<times> string) option" where
  "match_test s = test_header s \<bind> lazy_until test_ahead \<bind> matched s"


section \<open>Extraction and persistence\<close>

text \<open>
  \<open>save_code_and_tests\<close> of \<open>web_app.py\<close> and, with the prefix \<open>app_\<close>, of \<open>app.py\<close>.
  The two extract in the same way; the first writes to files named after the session and
  returns the two texts, the second writes to two fixed files and returns a flag. The
  writing of the two files is \<open>persist\<close>; opening with mode \<open>"w"\<close> replaces the
  content. Writes are assumed to succeed.
\<close>

type_synonym fs = "string \<rightharpoonup> string"

text \<open>
  The exceptions that can leave the functions modelled here; \<open>OtherError\<close> stands for
  any exception not named, with its name.
\<close>

datatype exn =
    FileNotFoundError | PermissionError | OSError | UnicodeDecodeError | UnboundLocalError
  | OtherError string

definition code_blocks :: "string \<Rightarrow> string list" where
  "code_blocks response =
     (let fenced_matches = findall match_fenced response;
          python_matches = findall match_python response
      in (if fenced_matches \<noteq> [] then map strip fenced_matches else []) @
         (if python_matches \<noteq> [] then map strip python_matches else []))"

text \<open>
  \<open>open(path, "r").read()\<close>: a missing file raises; the content is returned with every
  CR LF and every remaining CR turned into LF, as text mode does when reading. Writing in
  text mode is taken to leave the text as it is (the line separator of the platform is
  LF).
\<close>

fun universal_newlines :: "string \<Rightarrow> string" where
  "universal_newlines [] = []"
| "universal_newlines [c] = (if c = CHR 0x0D then [CHR 0x0A] else [c])"
| "universal_newlines (c # d # ds) =
     (if c = CHR 0x0D \<and> d = CHR 0x0A then CHR 0x0A # universal_newlines ds
      else if c = CHR 0x0D then CHR 0x0A # universal_newlines (d # ds)
      else c # universal_newlines (d # ds))"

definition read_text :: "fs \<Rightarrow> string \<Rightarrow> exn + string" where
  "read_text f file_path =
     (case f file_path of
        None \<Rightarrow> Inl FileNotFoundError
      | Some content \<Rightarrow> Inr (universal_newlines content))"

definition func_file_of :: "string \<Rightarrow> string" where
  "func_file_of session_id = ''generated_code_'' @ session_id @ ''.py''"

definition test_file_of :: "string \<Rightarrow> string" where
  "test_file_of session_id = ''test_generated_code_'' @ session_id @ ''.py''"

definition persist :: "string \<Rightarrow> string \<Rightarrow> string \<Rightarrow> fs \<Rightarrow> fs" where
  "persist session_id func_code test_code f =
     (let func_file = func_file_of session_id;
          test_file = test_file_of session_id;
          f1 = f(func_file \<mapsto> func_code @ ''\<newline>'')
      in f1(test_file \<mapsto> ''import pytest\<newline>from generated_code_'' @ session_id @
                             '' import *\<newline>\<newline>'' @ test_code @ ''\<newline>''))"

definition save_code_and_tests :: "string \<Rightarrow> string \<Rightarrow> fs \<Rightarrow> (bool \<times> string \<times> string) \<times> fs" where
  "save_code_and_tests response session_id f =
     (let blocks = code_blocks response in
      if blocks = [] then ((False, [], []), f)
      else
        let combined_code = join ''\<newline>\<newline>'' blocks;
            func_matches = findall match_func combined_code;
            test_matches = findall match_test combined_code
        in if func_matches = [] then ((False, [], []), f)
           else if test_matches = [] then ((False, [], []), f)
           else
             let func_code = join ''\<newline>\<newline>'' (map strip func_matches);
                 test_code = join ''\<newline>\<newline>'' (map strip test_matches)
             in ((True, func_code, test_code), persist session_id func_code test_code f))"

definition app_persist :: "string \<Rightarrow> string \<Rightarrow> fs \<Rightarrow> fs" where
  "app_persist func_code test_code f =
     (let f1 = f(''generated_code.py'' \<mapsto> func_code @ ''\<newline>'')
      in f1(''test_generated_code.py'' \<mapsto>
              ''import pytest\<newline>from generated_code import *\<newline>\<newline>'' @ test_code @ ''\<newline>''))"

definition app_save_code_and_tests :: "string \<Rightarrow> fs \<Rightarrow> bool \<times> fs" where
  "app_save_code_and_tests response f =
     (let blocks = code_blocks response in
      if blocks = [] then (False, f)
      else
        let combined_code = join ''\<newline>\<newline>'' blocks;
            func_matches = findall match_func combined_code;
            test_matches = findall match_test combined_code
        in if func_matches = [] then (False, f)
           else if test_matches = [] then (False, f)
           else
             let func_code = join ''\<newline>\<newline>'' (map strip func_matches);
                 test_code = join ''\<newline>\<newline>'' (map strip test_matches)
             in (True, app_persist func_code test_code f))"

section \<open>External collaborators\<close>

text \<open>
  The request posted to the endpoint is a \<open>payload\<close>. \<open>http_outcome\<close> is what the three
  steps inside the \<open>try\<close> block of \<open>generate_task\<close> can do: \<open>requests.post\<close> raises,
  \<open>raise_for_status\<close> raises, reading the \<open>response\<close> field of the body raises (each
  with the text of the exception), or the field is read. \<open>proc_outcome\<close> is what
  \<open>subprocess.run\<close> with \<open>text=True\<close> can do: raise any exception (the program cannot
  be started: \<open>FileNotFoundError\<close>, \<open>PermissionError\<close> or another \<open>OSError\<close>; the
  program ran and its output cannot be decoded: \<open>UnicodeDecodeError\<close>; an argument is
  refused), or return the exit status, the standard output and the standard error. The environment answers the
  \<open>n\<close>-th request and the \<open>n\<close>-th process, so that the same prompt may get different
  replies. The \<open>world\<close> is the file system together with the log of the requests posted
  and of the processes started.
\<close>

record payload =
  payload_model :: string
  payload_prompt :: string
  payload_stream :: bool

datatype http_outcome = PostRaised string | StatusRaised string | BodyRaised string | Replied string

datatype proc_outcome = Raised exn | Exited int string string

record env =
  endpoint :: "nat \<Rightarrow> payload \<Rightarrow> http_outcome"
  subprocess_run :: "nat \<Rightarrow> string list \<Rightarrow> fs \<Rightarrow> proc_outcome"

record world =
  files :: fs
  posted :: "payload list"
  spawned :: "string list list"

section \<open>Model client\<close>

text \<open>
  \<open>generate_task\<close>, the same in both files. The \<open>except Exception\<close> clause turns every
  exception of the \<open>try\<close> block into the reply \<open>error_reply\<close>.
\<close>

definition default_model :: string where
  "default_model = ''codellama:7b-instruct''"

definition default_temperature :: real where
  "default_temperature = 7 / 10"

definition request_payload :: "string \<Rightarrow> string \<Rightarrow> real \<Rightarrow> payload" where
  "request_payload prompt model temperature =
     \<lparr>payload_model = model, payload_prompt = prompt, payload_stream = False\<rparr>"

definition error_reply :: "string \<Rightarrow> string" where
  "error_reply e =
     ''Error: Unable to connect to the model server or generate a response.\<newline>Details: '' @ e"

fun reply_text :: "http_outcome \<Rightarrow> string" where
  "reply_text (Replied r) = r"
| "reply_text (PostRaised e) = error_reply e"
| "reply_text (StatusRaised e) = error_reply e"
| "reply_text (BodyRaised e) = error_reply e"

definition generate_task :: "env \<Rightarrow> string \<Rightarrow> string \<Rightarrow> real \<Rightarrow> world \<Rightarrow> string \<times> world" where
  "generate_task E prompt model temperature w =
     (let payload = request_payload prompt model temperature
      in (reply_text (endpoint E (length (posted w)) payload),
          w\<lparr>posted := posted w @ [payload]\<rparr>))"

section \<open>Test executor\<close>

text \<open>
  \<open>run_tests\<close> of \<open>web_app.py\<close> and \<open>app_run_tests\<close> of \<open>app.py\<close>. Neither catches
  what \<open>subprocess.run\<close> raises.
\<close>

definition run_tests_argv :: "string \<Rightarrow> string list" where
  "run_tests_argv session_id =
     [''pytest'', test_file_of session_id, ''-v'', ''--maxfail=1'', ''--disable-warnings'']"

definition run_tests :: "env \<Rightarrow> string \<Rightarrow> world \<Rightarrow> (exn + bool \<times> string) \<times> world" where
  "run_tests E session_id w =
     (let argv = run_tests_argv session_id;
          w' = w\<lparr>spawned := spawned w @ [argv]\<rparr>
      in case subprocess_run E (length (spawned w)) argv (files w) of
           Raised x \<Rightarrow> (Inl x, w')
         | Exited returncode out err \<Rightarrow>
             if returncode = 0 then (Inr (True, out), w')
             else (Inr (False, out @ ''\<newline>'' @ err), w'))"

definition app_run_tests_argv :: "string list" where
  "app_run_tests_argv =
     [''pytest'', ''test_generated_code.py'', ''-v'', ''--maxfail=1'', ''--disable-warnings'']"

definition app_run_tests :: "env \<Rightarrow> world \<Rightarrow> (exn + bool \<times> string option) \<times> world" where
  "app_run_tests E w =
     (let argv = app_run_tests_argv;
          w' = w\<lparr>spawned := spawned w @ [argv]\<rparr>
      in case subprocess_run E (length (spawned w)) argv (files w) of
           Raised x \<Rightarrow> (Inl x, w')
         | Exited returncode out err \<Rightarrow>
             if returncode = 0 then (Inr (True, None), w')
             else (Inr (False, Some err), w'))"

section \<open>Prompts\<close>

text \<open>
  \<open>full_prompt\<close> is the enhanced prompt built around the task description, \<open>fix_prompt\<close>
  the prompt built by \<open>fix_failing_code\<close>; \<open>fix_tail\<close> is its fixed last part.
\<close>

definition full_prompt :: "string \<Rightarrow> string" where
  "full_prompt prompt =
     ''Write a clean Python function for this task: '' @ prompt @ ''\<newline>\<newline>'' @
     ''Include comprehensive tests that cover:\<newline>'' @
     ''- Normal cases\<newline>'' @
     ''- Edge cases (empty inputs, zero, negative numbers, None, etc.)\<newline>'' @
     ''- Boundary conditions\<newline>'' @
     ''- Error handling if needed\<newline>\<newline>'' @
     ''Please provide BOTH the function and its tests in a SINGLE code block like this:\<newline>\<newline>'' @
     ''```python\<newline>'' @
     ''def function_name(args):\<newline>'' @
     ''    # your function implementation with error handling\<newline>'' @
     ''    return result\<newline>\<newline>'' @
     ''def test_function_name():\<newline>'' @
     ''    # pytest test cases covering all scenarios\<newline>'' @
     ''    assert function_name(test_input) == expected_output\<newline>'' @
     ''    assert function_name(edge_case) == expected_output\<newline>'' @
     ''```\<newline>\<newline>'' @
     ''Important: Put EVERYTHING in ONE code block. Include comprehensive test cases using pytest assertions.''"

definition fix_tail :: string where
  "fix_tail =
     ''\<newline>\<newline>'' @
     ''Please fix the code and provide BOTH the corrected function and its tests in a SINGLE code block:\<newline>\<newline>'' @
     ''```python\<newline>'' @
     ''def function_name(args):\<newline>'' @
     ''    # your corrected implementation\<newline>'' @
     ''    return result\<newline>\<newline>'' @
     ''def test_function_name():\<newline>'' @
     ''    # pytest test cases\<newline>'' @
     ''    assert function_name(test_input) == expected_output\<newline>'' @
     ''```\<newline>\<newline>'' @
     ''Important: Fix the issue and put EVERYTHING in ONE code block.''"

definition fix_prompt :: "string \<Rightarrow> string \<Rightarrow> string \<Rightarrow> string" where
  "fix_prompt original_prompt error_output previous_code =
     ''The following code was generated for the task: '' @ [CHR 0x27] @ original_prompt @
       [CHR 0x27] @ ''\<newline>\<newline>'' @
     ''Previous code:\<newline>'' @ previous_code @ ''\<newline>\<newline>'' @
     ''But the tests failed with this error:\<newline>'' @ error_output @ fix_tail"

definition fix_failing_code :: "env \<Rightarrow> string \<Rightarrow> string \<Rightarrow> string \<Rightarrow> world \<Rightarrow> string \<times> world" where
  "fix_failing_code E original_prompt error_output previous_code w =
     generate_task E (fix_prompt original_prompt error_output previous_code)
       default_model default_temperature w"

section \<open>Session cleanup\<close>

text \<open>
  \<open>cleanup_session_files\<close> of \<open>web_app.py\<close>. \<open>os.remove\<close> raises on a missing file;
  the caller checks for the file first and ignores what \<open>os.remove\<close> raises. Removing a
  file that exists is assumed to succeed.
\<close>

definition os_remove :: "string \<Rightarrow> fs \<Rightarrow> exn + fs" where
  "os_remove file_path f =
     (if f file_path \<noteq> None then Inr (f(file_path := None)) else Inl FileNotFoundError)"

fun cleanup_files :: "string list \<Rightarrow> fs \<Rightarrow> fs" where
  "cleanup_files [] f = f"
| "cleanup_files (file_path # later) f =
     cleanup_files later
       (if f file_path \<noteq> None
        then (case os_remove file_path f of Inr f' \<Rightarrow> f' | Inl _ \<Rightarrow> f)
        else f)"

definition cleanup_session_files :: "string \<Rightarrow> world \<Rightarrow> world" where
  "cleanup_session_files session_id w =
     w\<lparr>files := cleanup_files [func_file_of session_id, test_file_of session_id] (files w)\<rparr>"

section \<open>The web orchestrator\<close>

text \<open>
  The route \<open>generate\<close> of \<open>web_app.py\<close>. \<open>attempt_data\<close> is the dictionary appended to
  \<open>attempts\<close> for each attempt, \<open>response\<close> the three JSON bodies the route returns.
  \<open>next_reply\<close> is the first statement of the body of the \<open>for\<close> loop, which asks
  the model with the original prompt or with the fix-up prompt, and \<open>cycle\<close> is the whole
  body: it ends with the run passed, or failed with
  the new value of \<open>last_error\<close>, or with an exception. \<open>last_error\<close> is a local
  variable of the route, unbound (\<open>None\<close>) until a failed attempt assigns it. The loop
  runs over \<open>range(max_retries)\<close>.
\<close>

record attempt_data =
  att_attempt :: nat
  att_ai_response :: string
  att_success :: bool
  att_func_code :: string
  att_test_code :: string
  att_test_output :: string
  att_error :: string

datatype response =
    BadRequest string
  | Succeeded "attempt_data list" string string string
  | Exhausted "attempt_data list" string

datatype cycle_outcome = Passed attempt_data | Failed attempt_data string | Escaped exn

function str_nat :: "nat \<Rightarrow> string" where
  "str_nat n =
     (if n < 10 then [char_of (48 + n)] else str_nat (n div 10) @ [char_of (48 + n mod 10)])"
  by pat_completeness auto
termination
  by (relation "measure id") auto

declare str_nat.simps [simp del]

definition next_reply ::
  "env \<Rightarrow> string \<Rightarrow> string \<Rightarrow> nat \<Rightarrow> string option \<Rightarrow> world \<Rightarrow> exn + string \<times> world" where
  "next_reply E prompt session_id attempt last_error w =
     (if attempt = 0
      then Inr (generate_task E (full_prompt prompt) default_model default_temperature w)
      else if files w (func_file_of session_id) \<noteq> None
           then (case read_text (files w) (func_file_of session_id) of
                   Inl x \<Rightarrow> Inl x
                 | Inr previous_code \<Rightarrow>
                     (case last_error of
                        None \<Rightarrow> Inl UnboundLocalError
                      | Some e \<Rightarrow> Inr (fix_failing_code E prompt e previous_code w)))
           else Inr (generate_task E (full_prompt prompt) default_model default_temperature w))"

definition cycle :: "env \<Rightarrow> string \<Rightarrow> string \<Rightarrow> nat \<Rightarrow> string option \<Rightarrow> world \<Rightarrow> cycle_outcome \<times> world" where
  "cycle E prompt session_id attempt last_error w =
     (case next_reply E prompt session_id attempt last_error w of
        Inl x \<Rightarrow> (Escaped x, w)
      | Inr (result, w1) \<Rightarrow>
          (case save_code_and_tests result session_id (files w1) of
             ((saved, func_code, test_code), f') \<Rightarrow>
               let w2 = w1\<lparr>files := f'\<rparr>;
                   record = \<lparr>att_attempt = attempt + 1, att_ai_response = result,
                             att_success = False, att_func_code = func_code,
                             att_test_code = test_code, att_test_output = [], att_error = []\<rparr>
               in if saved then
                    (case run_tests E session_id w2 of
                       (Inl x, w3) \<Rightarrow> (Escaped x, w3)
                     | (Inr (test_success, test_output), w3) \<Rightarrow>
                         let record = record\<lparr>att_test_output := test_output\<rparr>
                         in if test_success then (Passed (record\<lparr>att_success := True\<rparr>), w3)
                            else (Failed (record\<lparr>att_error := test_output\<rparr>) test_output, w3))
                  else (Failed (record\<lparr>att_error := ''Failed to parse code blocks from AI response''\<rparr>)
                          ''Failed to parse code blocks'', w2)))"

fun generate_loop ::
  "env \<Rightarrow> string \<Rightarrow> string \<Rightarrow> nat \<Rightarrow> nat list \<Rightarrow> string option \<Rightarrow> attempt_data list \<Rightarrow> world
     \<Rightarrow> (exn + response) \<times> world" where
  "generate_loop E prompt session_id max_retries [] last_error attempts w =
     (Inr (Exhausted attempts (''Failed after '' @ str_nat max_retries @ '' attempts'')),
      cleanup_session_files session_id w)"
| "generate_loop E prompt session_id max_retries (attempt # later) last_error attempts w =
     (case cycle E prompt session_id attempt last_error w of
        (Escaped x, w') \<Rightarrow> (Inl x, w')
      | (Passed record, w') \<Rightarrow>
          (Inr (Succeeded (attempts @ [record]) (att_func_code record) (att_test_code record)
                  (att_test_output record)),
           cleanup_session_files session_id w')
      | (Failed record e, w') \<Rightarrow>
          generate_loop E prompt session_id max_retries later (Some e) (attempts @ [record]) w')"

fun attempts_of :: "exn + response \<Rightarrow> attempt_data list" where
  "attempts_of (Inr (Succeeded attempts _ _ _)) = attempts"
| "attempts_of (Inr (Exhausted attempts _)) = attempts"
| "attempts_of _ = []"

definition generate :: "env \<Rightarrow> (string \<rightharpoonup> string) \<Rightarrow> world \<Rightarrow> (exn + response) \<times> world" where
  "generate E data w =
     (let prompt = (case data ''prompt'' of Some p \<Rightarrow> p | None \<Rightarrow> []);
          session_id = (case data ''session_id'' of Some s \<Rightarrow> s | None \<Rightarrow> ''default'')
      in if prompt = [] then (Inr (BadRequest ''No prompt provided''), w)
         else let max_retries = 3
              in generate_loop E prompt session_id max_retries [0..<max_retries] None [] w)"

text \<open>
  A specification, not code of the repository: the prompts that the attempt records of a
  run of the web orchestrator call for, one for the attempt after each record. \<open>file\<close>
  is the content of the session's implementation file before the attempt of the record
  (\<open>None\<close>: no file). An attempt that extracted an implementation has written it,
  followed by a newline, and its failure text is the error text of its record; an attempt
  that extracted nothing has left the file as it was, and its failure text is
  \<open>Failed to parse code blocks\<close>. The next prompt, \<open>expected_prompt\<close>, is the original
  enhanced prompt when there is no file, and otherwise the fix-up text around the task
  description, the file as read back, and the failure text of this record.
\<close>

definition expected_prompt :: "string \<Rightarrow> string \<Rightarrow> string option \<Rightarrow> string" where
  "expected_prompt prompt failure file =
     (case file of
        None \<Rightarrow> full_prompt prompt
      | Some content \<Rightarrow>
          ''The following code was generated for the task: '' @ [CHR 0x27] @ prompt @
            [CHR 0x27] @ ''\<newline>\<newline>'' @
          ''Previous code:\<newline>'' @ universal_newlines content @ ''\<newline>\<newline>'' @
          ''But the tests failed with this error:\<newline>'' @ failure @ fix_tail)"

fun expected_retry_prompts :: "string \<Rightarrow> string option \<Rightarrow> attempt_data list \<Rightarrow> string list" where
  "expected_retry_prompts prompt file [] = []"
| "expected_retry_prompts prompt file (a # later) =
     (let extracted = (att_func_code a \<noteq> []);
          file' = (if extracted then Some (att_func_code a @ ''\<newline>'') else file);
          failure = (if extracted then att_error a else ''Failed to parse code blocks'')
      in expected_prompt prompt failure file' # expected_retry_prompts prompt file' later)"

section \<open>The command-line orchestrator\<close>

text \<open>
  \<open>run_with_retry\<close> of \<open>app.py\<close>. It reads the global \<open>full_prompt\<close>, a parameter
  here. \<open>last_error\<close> is assigned inside the function, which makes it a local variable
  of the function: it is unbound (\<open>None\<close>) until a failed test run assigns it, and the
  assignment \<open>last_error = None\<close> at module level is not seen. Its value, once bound, is
  what \<open>run_tests\<close> returned, \<open>None\<close> or a text; \<open>fstr\<close> is how an f-string formats
  it. Nothing is removed at the end.
\<close>

datatype app_outcome = AppPassed | AppFailed "string option option" | AppEscaped exn

fun fstr :: "string option \<Rightarrow> string" where
  "fstr None = ''None''"
| "fstr (Some s) = s"

definition app_next_reply ::
  "env \<Rightarrow> string \<Rightarrow> string \<Rightarrow> nat \<Rightarrow> string option option \<Rightarrow> world \<Rightarrow> exn + string \<times> world" where
  "app_next_reply E global_full_prompt original_prompt attempt last_error w =
     (if attempt = 0
      then Inr (generate_task E global_full_prompt default_model default_temperature w)
      else (case read_text (files w) ''generated_code.py'' of
              Inl x \<Rightarrow> Inl x
            | Inr previous_code \<Rightarrow>
                (case last_error of
                   None \<Rightarrow> Inl UnboundLocalError
                 | Some e \<Rightarrow> Inr (fix_failing_code E original_prompt (fstr e) previous_code w))))"

definition app_cycle ::
  "env \<Rightarrow> string \<Rightarrow> string \<Rightarrow> nat \<Rightarrow> string option option \<Rightarrow> world \<Rightarrow> app_outcome \<times> world" where
  "app_cycle E global_full_prompt original_prompt attempt last_error w =
     (case app_next_reply E global_full_prompt original_prompt attempt last_error w of
        Inl x \<Rightarrow> (AppEscaped x, w)
      | Inr (result, w1) \<Rightarrow>
          (case app_save_code_and_tests result (files w1) of
             (saved, f') \<Rightarrow>
               let w2 = w1\<lparr>files := f'\<rparr>
               in if saved then
                    (case app_run_tests E w2 of
                       (Inl x, w3) \<Rightarrow> (AppEscaped x, w3)
                     | (Inr (success, error_output), w3) \<Rightarrow>
                         if success then (AppPassed, w3) else (AppFailed (Some error_output), w3))
                  else (AppFailed last_error, w2)))"

fun run_with_retry_loop ::
  "env \<Rightarrow> string \<Rightarrow> string \<Rightarrow> nat list \<Rightarrow> string option option \<Rightarrow> world \<Rightarrow> (exn + bool) \<times> world" where
  "run_with_retry_loop E global_full_prompt original_prompt [] last_error w = (Inr False, w)"
| "run_with_retry_loop E global_full_prompt original_prompt (attempt # later) last_error w =
     (case app_cycle E global_full_prompt original_prompt attempt last_error w of
        (AppEscaped x, w') \<Rightarrow> (Inl x, w')
      | (AppPassed, w') \<Rightarrow> (Inr True, w')
      | (AppFailed last_error', w') \<Rightarrow>
          run_with_retry_loop E global_full_prompt original_prompt later last_error' w')"

definition run_with_retry :: "env \<Rightarrow> string \<Rightarrow> string \<Rightarrow> nat \<Rightarrow> world \<Rightarrow> (exn + bool) \<times> world" where
  "run_with_retry E global_full_prompt original_prompt max_retries w =
     run_with_retry_loop E global_full_prompt original_prompt [0..<max_retries] None w"

section \<open>Sample inputs\<close>

text \<open>
  Concrete replies, environments and file systems on which the theorems below are
  evaluated. \<open>plain_reply\<close> is a reply in the shape both prompts ask for;
  \<open>inline_code_reply\<close> has inline code between backquotes before the fenced block;
  \<open>annotated_reply\<close> differs from \<open>plain_reply\<close> by a return annotation on the
  implementation; \<open>failing_record\<close> is the attempt record of a failed test run;
  \<open>nested_def_buffer\<close> is a combined buffer whose test function has a nested helper.
  \<open>env_offline\<close> is a model server that refuses the connection, \<open>env_no_pytest\<close> a
  machine without pytest, \<open>env_passing\<close> a runner that reports success and
  \<open>env_failing\<close> one that reports a failure, with another error from the second run
  on; \<open>world_stale\<close> holds a \<open>generated_code.py\<close> left by an earlier
  command-line run.
\<close>

definition world0 :: world where
  "world0 = \<lparr>files = Map.empty, posted = [], spawned = []\<rparr>"

definition world_stale :: world where
  "world_stale = \<lparr>files = [''generated_code.py'' \<mapsto> ''def g(): pass\<newline>''], posted = [], spawned = []\<rparr>"

definition request_p :: "string \<rightharpoonup> string" where
  "request_p = [''prompt'' \<mapsto> ''p'', ''session_id'' \<mapsto> ''s'']"

definition nested_def_buffer :: string where
  "nested_def_buffer =
     ''def f():\<newline>    return 1\<newline>\<newline>'' @
     ''def test_f():\<newline>    def helper():\<newline>        return 1\<newline>    assert f() == helper()''"

definition annotated_reply :: string where
  "annotated_reply =
     ''```python\<newline>'' @
     ''def f(x) -> int:\<newline>    return x\<newline>\<newline>'' @
     ''def test_f():\<newline>    assert f(1) == 1\<newline>'' @
     ''```''"

definition plain_reply :: string where
  "plain_reply =
     ''Here you go:\<newline>```python\<newline>'' @
     ''def f(x):\<newline>    return x\<newline>\<newline>'' @
     ''def test_f():\<newline>    assert f(1) == 1\<newline>'' @
     ''```\<newline>Done.''"

definition inline_code_reply :: string where
  "inline_code_reply =
     ''Use `f` like this:\<newline>'' @
     ''```python\<newline>'' @
     ''def f(x):\<newline>    return x\<newline>\<newline>'' @
     ''def test_f():\<newline>    assert f(1) == 1\<newline>'' @
     ''```''"

definition env_offline :: env where
  "env_offline =
     \<lparr>endpoint = (\<lambda>n p. PostRaised ''Connection refused''),
      subprocess_run = (\<lambda>n argv f. Exited 0 ''1 passed'' [])\<rparr>"

definition env_no_pytest :: env where
  "env_no_pytest =
     \<lparr>endpoint = (\<lambda>n p. Replied plain_reply),
      subprocess_run = (\<lambda>n argv f. Raised FileNotFoundError)\<rparr>"

definition env_passing :: env where
  "env_passing =
     \<lparr>endpoint = (\<lambda>n p. Replied plain_reply),
      subprocess_run = (\<lambda>n argv f. Exited 0 ''1 passed'' [])\<rparr>"

definition env_failing :: env where
  "env_failing =
     \<lparr>endpoint = (\<lambda>n p. Replied plain_reply),
      subprocess_run = (\<lambda>n argv f. if n = 0 then Exited 1 ''1 failed'' ''AssertionError''
                                   else Exited 1 ''1 failed'' ''TypeError'')\<rparr>"

definition env_pass_with_warning :: env where
  "env_pass_with_warning =
     \<lparr>endpoint = (\<lambda>n p. Replied []),
      subprocess_run = (\<lambda>n argv f. Exited 0 ''1 passed'' ''warning'')\<rparr>"

definition failing_record :: "nat \<Rightarrow> string \<Rightarrow> attempt_data" where
  "failing_record n failure =
     \<lparr>att_attempt = n, att_ai_response = plain_reply, att_success = False,
      att_func_code = ''def f(x):\<newline>    return x'',
      att_test_code = ''def test_f():\<newline>    assert f(1) == 1'',
      att_test_output = failure, att_error = failure\<rparr>"

section \<open>Facts about the matchers\<close>

lemma strip_prefix_Some_iff: "strip_prefix p s = Some r \<longleftrightarrow> s = p @ r"
  by (induction p s rule: strip_prefix.induct) auto

lemma strip_prefix_None_iff: "strip_prefix p s = None \<longleftrightarrow> \<not> prefix p s"
  by (induction p s rule: strip_prefix.induct) auto

lemma greedy_plus_Some_iff:
  "greedy_plus P s = Some r \<longleftrightarrow>
     (\<exists>run. s = run @ r \<and> run \<noteq> [] \<and> (\<forall>c\<in>set run. P c) \<and> (r = [] \<or> \<not> P (hd r)))"
proof
  assume "greedy_plus P s = Some r"
  then have a: "takeWhile P s \<noteq> []" and b: "r = dropWhile P s"
    by (auto simp: greedy_plus_def split: if_splits)
  have "s = takeWhile P s @ r" using b by simp
  moreover have "\<forall>c\<in>set (takeWhile P s). P c" by (auto dest: set_takeWhileD)
  moreover have "r = [] \<or> \<not> P (hd r)" using b hd_dropWhile [of P s] by auto
  ultimately show "\<exists>run. s = run @ r \<and> run \<noteq> [] \<and> (\<forall>c\<in>set run. P c) \<and> (r = [] \<or> \<not> P (hd r))"
    using a by blast
next
  assume "\<exists>run. s = run @ r \<and> run \<noteq> [] \<and> (\<forall>c\<in>set run. P c) \<and> (r = [] \<or> \<not> P (hd r))"
  then obtain run where s: "s = run @ r" and ne: "run \<noteq> []" and all: "\<forall>c\<in>set run. P c"
    and stop: "r = [] \<or> \<not> P (hd r)" by blast
  have tr: "takeWhile P r = []" using stop by (cases r) auto
  have dr: "dropWhile P r = r" using stop by (cases r) auto
  have "takeWhile P s = run" using s all tr by (simp add: takeWhile_append2)
  moreover have "dropWhile P s = r" using s all dr by (simp add: dropWhile_append2)
  ultimately show "greedy_plus P s = Some r" using ne by (simp add: greedy_plus_def)
qed

lemma greedy_star_Some_iff:
  "greedy_star P s = Some r \<longleftrightarrow>
     (\<exists>run. s = run @ r \<and> (\<forall>c\<in>set run. P c) \<and> (r = [] \<or> \<not> P (hd r)))"
proof
  assume "greedy_star P s = Some r"
  then have b: "r = dropWhile P s" by (auto simp: greedy_star_def)
  have "s = takeWhile P s @ r" using b by simp
  moreover have "\<forall>c\<in>set (takeWhile P s). P c" by (auto dest: set_takeWhileD)
  moreover have "r = [] \<or> \<not> P (hd r)" using b hd_dropWhile [of P s] by auto
  ultimately show "\<exists>run. s = run @ r \<and> (\<forall>c\<in>set run. P c) \<and> (r = [] \<or> \<not> P (hd r))"
    by blast
next
  assume "\<exists>run. s = run @ r \<and> (\<forall>c\<in>set run. P c) \<and> (r = [] \<or> \<not> P (hd r))"
  then obtain run where s: "s = run @ r" and all: "\<forall>c\<in>set run. P c"
    and stop: "r = [] \<or> \<not> P (hd r)" by blast
  have dr: "dropWhile P r = r" using stop by (cases r) auto
  have "dropWhile P s = r" using s all dr by (simp add: dropWhile_append2)
  then show "greedy_star P s = Some r" by (simp add: greedy_star_def)
qed

lemma not_followed_by_Some_iff:
  "not_followed_by p s = Some r \<longleftrightarrow> r = s \<and> \<not> prefix p s"
  by (auto simp: not_followed_by_def strip_prefix_None_iff strip_prefix_Some_iff
        split: option.splits)

lemma isspace_simps [simp]:
  "\<not> isspace CHR ''d''" "\<not> isspace CHR ''t''" "\<not> isspace CHR ''(''" "\<not> isspace CHR '':''"
  "isspace CHR '' ''" "isspace CHR ''\<newline>''"
  by (simp_all add: isspace_def)

lemma isword_simps [simp]:
  "\<not> isword CHR ''(''" "isword CHR ''t''" "isword CHR ''e''" "isword CHR ''s''" "isword CHR ''_''"
  by (simp_all add: isword_def)

lemma space_not_word: "isspace c \<Longrightarrow> \<not> isword c"
  by (auto simp: isspace_def isword_def)

lemma test_prefix_of_name:
  "prefix ''test_'' (nm @ ''('' @ r) \<longleftrightarrow> prefix ''test_'' nm"
proof
  assume "prefix ''test_'' (nm @ ''('' @ r)"
  then consider (a) "prefix ''test_'' nm"
    | (b) us where "''test_'' = nm @ us" "prefix us (''('' @ r)"
    unfolding prefix_append by blast
  then show "prefix ''test_'' nm"
  proof cases
    case a
    then show ?thesis .
  next
    case b
    show ?thesis
    proof (cases us)
      case Nil
      with b show ?thesis by simp
    next
      case (Cons u us')
      with b(2) have "u = CHR ''(''" by simp
      then have "CHR ''('' \<in> set (nm @ us)" using Cons by simp
      then have "CHR ''('' \<in> set ''test_''" using b(1) by simp
      then show ?thesis by simp
    qed
  qed
next
  assume "prefix ''test_'' nm"
  then show "prefix ''test_'' (nm @ ''('' @ r)" by (rule prefix_prefix)
qed

text \<open>
  The two header patterns, read as shapes of text: a header matches exactly the strings
  \<open>def\<close>, a run of whitespace, a name of word characters (after \<open>test_\<close> for the test
  pattern, not starting with \<open>test_\<close> for the other), an opening parenthesis, any text
  without a closing parenthesis, and \<open>):\<close>.
\<close>

lemma test_header_intro:
  assumes "ws \<noteq> []" "\<forall>c\<in>set ws. isspace c" "nm \<noteq> []" "\<forall>c\<in>set nm. isword c"
    "CHR '')'' \<notin> set args"
  shows "test_header (''def'' @ ws @ ''test_'' @ nm @ ''('' @ args @ ''):'' @ r) = Some r"
proof -
  have 1: "strip_prefix ''def'' (''def'' @ ws @ ''test_'' @ nm @ ''('' @ args @ ''):'' @ r)
      = Some (ws @ ''test_'' @ nm @ ''('' @ args @ ''):'' @ r)"
    by (simp add: strip_prefix_Some_iff)
  have 2: "greedy_plus isspace (ws @ ''test_'' @ nm @ ''('' @ args @ ''):'' @ r)
      = Some (''test_'' @ nm @ ''('' @ args @ ''):'' @ r)"
    unfolding greedy_plus_Some_iff using assms by (intro exI [of _ ws]) simp
  have 3: "strip_prefix ''test_'' (''test_'' @ nm @ ''('' @ args @ ''):'' @ r)
      = Some (nm @ ''('' @ args @ ''):'' @ r)"
    by (simp add: strip_prefix_Some_iff)
  have 4: "greedy_plus isword (nm @ ''('' @ args @ ''):'' @ r) = Some (''('' @ args @ ''):'' @ r)"
    unfolding greedy_plus_Some_iff using assms by (intro exI [of _ nm]) simp
  have 5: "strip_prefix ''('' (''('' @ args @ ''):'' @ r) = Some (args @ ''):'' @ r)"
    by (simp add: strip_prefix_Some_iff)
  have 6: "greedy_star (\<lambda>c. c \<noteq> CHR '')'') (args @ ''):'' @ r) = Some (''):'' @ r)"
    unfolding greedy_star_Some_iff using assms by (intro exI [of _ args]) auto
  have 7: "strip_prefix '')'' (''):'' @ r) = Some ('':'' @ r)"
    by (simp add: strip_prefix_Some_iff)
  have 8: "strip_prefix '':'' ('':'' @ r) = Some r"
    by (simp add: strip_prefix_Some_iff)
  show ?thesis
    unfolding test_header_def by (simp only: 1 2 3 4 5 6 7 8 Option.bind.simps)
qed

lemma test_header_shape:
  assumes "test_header s = Some r"
  shows "\<exists>ws nm args. s = ''def'' @ ws @ ''test_'' @ nm @ ''('' @ args @ ''):'' @ r \<and>
           ws \<noteq> [] \<and> (\<forall>c\<in>set ws. isspace c) \<and> nm \<noteq> [] \<and> (\<forall>c\<in>set nm. isword c) \<and>
           CHR '')'' \<notin> set args"
proof -
  from assms obtain r1 r2 r3 r4 r5 r6 r7 where
    1: "strip_prefix ''def'' s = Some r1" and 2: "greedy_plus isspace r1 = Some r2" and
    3: "strip_prefix ''test_'' r2 = Some r3" and 4: "greedy_plus isword r3 = Some r4" and
    5: "strip_prefix ''('' r4 = Some r5" and 6: "greedy_star (\<lambda>c. c \<noteq> CHR '')'') r5 = Some r6" and
    7: "strip_prefix '')'' r6 = Some r7" and 8: "strip_prefix '':'' r7 = Some r"
    unfolding test_header_def by (auto simp: bind_eq_Some_conv)
  from 2 obtain ws where ws: "r1 = ws @ r2" "ws \<noteq> []" "\<forall>c\<in>set ws. isspace c"
    unfolding greedy_plus_Some_iff by blast
  from 4 obtain nm where nm: "r3 = nm @ r4" "nm \<noteq> []" "\<forall>c\<in>set nm. isword c"
    unfolding greedy_plus_Some_iff by blast
  from 6 obtain args where args: "r5 = args @ r6" "\<forall>c\<in>set args. c \<noteq> CHR '')''"
    unfolding greedy_star_Some_iff by blast
  have "s = ''def'' @ ws @ ''test_'' @ nm @ ''('' @ args @ ''):'' @ r"
    using 1 3 5 7 8 ws nm args by (simp add: strip_prefix_Some_iff)
  moreover have "CHR '')'' \<notin> set args" using args by blast
  ultimately show ?thesis using ws nm by blast
qed

lemma func_header_intro:
  assumes "ws \<noteq> []" "\<forall>c\<in>set ws. isspace c" "nm \<noteq> []" "\<forall>c\<in>set nm. isword c"
    "\<not> prefix ''test_'' nm" "CHR '')'' \<notin> set args"
  shows "func_header (''def'' @ ws @ nm @ ''('' @ args @ ''):'' @ r) = Some r"
proof -
  have nsp: "\<not> isspace (hd nm)" using assms(3,4) space_not_word by (cases nm) auto
  have 1: "strip_prefix ''def'' (''def'' @ ws @ nm @ ''('' @ args @ ''):'' @ r)
      = Some (ws @ nm @ ''('' @ args @ ''):'' @ r)"
    by (simp add: strip_prefix_Some_iff)
  have 2: "greedy_plus isspace (ws @ nm @ ''('' @ args @ ''):'' @ r)
      = Some (nm @ ''('' @ args @ ''):'' @ r)"
    unfolding greedy_plus_Some_iff using assms nsp by (intro exI [of _ ws]) simp
  have 3: "not_followed_by ''test_'' (nm @ ''('' @ args @ ''):'' @ r)
      = Some (nm @ ''('' @ args @ ''):'' @ r)"
    unfolding not_followed_by_Some_iff using assms(5) test_prefix_of_name by simp
  have 4: "greedy_plus isword (nm @ ''('' @ args @ ''):'' @ r) = Some (''('' @ args @ ''):'' @ r)"
    unfolding greedy_plus_Some_iff using assms by (intro exI [of _ nm]) simp
  have 5: "strip_prefix ''('' (''('' @ args @ ''):'' @ r) = Some (args @ ''):'' @ r)"
    by (simp add: strip_prefix_Some_iff)
  have 6: "greedy_star (\<lambda>c. c \<noteq> CHR '')'') (args @ ''):'' @ r) = Some (''):'' @ r)"
    unfolding greedy_star_Some_iff using assms by (intro exI [of _ args]) auto
  have 7: "strip_prefix '')'' (''):'' @ r) = Some ('':'' @ r)"
    by (simp add: strip_prefix_Some_iff)
  have 8: "strip_prefix '':'' ('':'' @ r) = Some r"
    by (simp add: strip_prefix_Some_iff)
  show ?thesis
    unfolding func_header_def by (simp only: 1 2 3 4 5 6 7 8 Option.bind.simps)
qed

lemma func_header_shape:
  assumes "func_header s = Some r"
  shows "\<exists>ws nm args. s = ''def'' @ ws @ nm @ ''('' @ args @ ''):'' @ r \<and>
           ws \<noteq> [] \<and> (\<forall>c\<in>set ws. isspace c) \<and> nm \<noteq> [] \<and> (\<forall>c\<in>set nm. isword c) \<and>
           \<not> prefix ''test_'' nm \<and> CHR '')'' \<notin> set args"
proof -
  from assms obtain r1 r2 r3 r4 r5 r6 r7 where
    1: "strip_prefix ''def'' s = Some r1" and 2: "greedy_plus isspace r1 = Some r2" and
    3: "not_followed_by ''test_'' r2 = Some r3" and 4: "greedy_plus isword r3 = Some r4" and
    5: "strip_prefix ''('' r4 = Some r5" and 6: "greedy_star (\<lambda>c. c \<noteq> CHR '')'') r5 = Some r6" and
    7: "strip_prefix '')'' r6 = Some r7" and 8: "strip_prefix '':'' r7 = Some r"
    unfolding func_header_def by (auto simp: bind_eq_Some_conv)
  from 2 obtain ws where ws: "r1 = ws @ r2" "ws \<noteq> []" "\<forall>c\<in>set ws. isspace c"
    unfolding greedy_plus_Some_iff by blast
  from 3 have r3: "r3 = r2" and np: "\<not> prefix ''test_'' r2"
    unfolding not_followed_by_Some_iff by auto
  from 4 obtain nm where nm: "r3 = nm @ r4" "nm \<noteq> []" "\<forall>c\<in>set nm. isword c"
    unfolding greedy_plus_Some_iff by blast
  from 6 obtain args where args: "r5 = args @ r6" "\<forall>c\<in>set args. c \<noteq> CHR '')''"
    unfolding greedy_star_Some_iff by blast
  have s: "s = ''def'' @ ws @ nm @ ''('' @ args @ ''):'' @ r"
    using 1 r3 5 7 8 ws nm args by (simp add: strip_prefix_Some_iff)
  have "r2 = nm @ ''('' @ (args @ ''):'' @ r)"
    using r3 5 7 8 nm args by (simp add: strip_prefix_Some_iff)
  then have "\<not> prefix ''test_'' nm" using np test_prefix_of_name by metis
  moreover have "CHR '')'' \<notin> set args" using args by blast
  ultimately show ?thesis using ws nm s by blast
qed

text \<open>The lazy body stops at the first position where the lookahead holds.\<close>

lemma lazy_until_Some:
  "lazy_until ahead s = Some r \<Longrightarrow>
     \<exists>b. s = b @ r \<and> ahead r \<and> (\<forall>b1 b2. b = b1 @ b2 \<and> b2 \<noteq> [] \<longrightarrow> \<not> ahead (b2 @ r))"
proof (induction s)
  case Nil
  then show ?case by (auto split: if_splits)
next
  case (Cons c cs)
  show ?case
  proof (cases "ahead (c # cs)")
    case True
    with Cons.prems show ?thesis by auto
  next
    case False
    with Cons.prems have "lazy_until ahead cs = Some r" by simp
    from Cons.IH [OF this] obtain b where b: "cs = b @ r" "ahead r"
      "\<forall>b1 b2. b = b1 @ b2 \<and> b2 \<noteq> [] \<longrightarrow> \<not> ahead (b2 @ r)" by blast
    have "\<forall>b1 b2. c # b = b1 @ b2 \<and> b2 \<noteq> [] \<longrightarrow> \<not> ahead (b2 @ r)"
    proof (intro allI impI)
      fix b1 b2 assume h: "c # b = b1 @ b2 \<and> b2 \<noteq> []"
      show "\<not> ahead (b2 @ r)"
      proof (cases b1)
        case Nil
        with h have "b2 @ r = c # cs" using b(1) by simp
        with False show ?thesis by simp
      next
        case (Cons x b1')
        with h have "b = b1' @ b2" by simp
        with b(3) h show ?thesis by blast
      qed
    qed
    with b show ?thesis by (intro exI [of _ "c # b"]) simp
  qed
qed

lemma lazy_until_total: "ahead [] \<Longrightarrow> lazy_until ahead s \<noteq> None"
  by (induction s) auto

lemma func_ahead_Nil [simp]: "func_ahead []"
  by (simp add: func_ahead_def)

lemma test_ahead_Nil [simp]: "test_ahead []"
  by (simp add: test_ahead_def)

lemma test_ahead_iff:
  "test_ahead t \<longleftrightarrow> t = [] \<or> (\<exists>c r. t = ''def'' @ c # r \<and> isspace c)"
proof -
  have "(strip_prefix ''def'' t \<bind> greedy_plus isspace \<noteq> None) \<longleftrightarrow>
        (\<exists>c r. t = ''def'' @ c # r \<and> isspace c)"
  proof
    assume "strip_prefix ''def'' t \<bind> greedy_plus isspace \<noteq> None"
    then obtain r1 r2 where "strip_prefix ''def'' t = Some r1" "greedy_plus isspace r1 = Some r2"
      by (auto simp: bind_eq_Some_conv)
    then obtain run where "t = ''def'' @ run @ r2" "run \<noteq> []" "\<forall>c\<in>set run. isspace c"
      unfolding greedy_plus_Some_iff strip_prefix_Some_iff by auto
    then show "\<exists>c r. t = ''def'' @ c # r \<and> isspace c" by (cases run) auto
  next
    assume "\<exists>c r. t = ''def'' @ c # r \<and> isspace c"
    then obtain c r where t: "t = ''def'' @ c # r" and c: "isspace c" by blast
    have "strip_prefix ''def'' t = Some (c # r)" using t by (simp add: strip_prefix_Some_iff)
    moreover have "greedy_plus isspace (c # r) \<noteq> None" using c by (simp add: greedy_plus_def)
    ultimately show "strip_prefix ''def'' t \<bind> greedy_plus isspace \<noteq> None" by simp
  qed
  then show ?thesis by (auto simp: test_ahead_def split: option.splits)
qed

lemma func_ahead_iff:
  "func_ahead t \<longleftrightarrow>
     t = [] \<or> (\<exists>ws r. t = ''def'' @ ws @ ''test_'' @ r \<and> ws \<noteq> [] \<and> (\<forall>c\<in>set ws. isspace c))"
proof -
  have "(strip_prefix ''def'' t \<bind> greedy_plus isspace \<bind> strip_prefix ''test_'' \<noteq> None) \<longleftrightarrow>
        (\<exists>ws r. t = ''def'' @ ws @ ''test_'' @ r \<and> ws \<noteq> [] \<and> (\<forall>c\<in>set ws. isspace c))"
  proof
    assume "strip_prefix ''def'' t \<bind> greedy_plus isspace \<bind> strip_prefix ''test_'' \<noteq> None"
    then obtain r1 r2 r3 where "strip_prefix ''def'' t = Some r1"
      "greedy_plus isspace r1 = Some r2" "strip_prefix ''test_'' r2 = Some r3"
      by (auto simp: bind_eq_Some_conv)
    then obtain run where "t = ''def'' @ run @ ''test_'' @ r3" "run \<noteq> []" "\<forall>c\<in>set run. isspace c"
      unfolding greedy_plus_Some_iff strip_prefix_Some_iff by auto
    then show "\<exists>ws r. t = ''def'' @ ws @ ''test_'' @ r \<and> ws \<noteq> [] \<and> (\<forall>c\<in>set ws. isspace c)"
      by blast
  next
    assume "\<exists>ws r. t = ''def'' @ ws @ ''test_'' @ r \<and> ws \<noteq> [] \<and> (\<forall>c\<in>set ws. isspace c)"
    then obtain ws r where t: "t = ''def'' @ ws @ ''test_'' @ r" and ws: "ws \<noteq> []"
      "\<forall>c\<in>set ws. isspace c" by blast
    have "strip_prefix ''def'' t = Some (ws @ ''test_'' @ r)"
      using t by (simp add: strip_prefix_Some_iff)
    moreover have "greedy_plus isspace (ws @ ''test_'' @ r) = Some (''test_'' @ r)"
      unfolding greedy_plus_Some_iff using ws by (intro exI [of _ ws]) simp
    moreover have "strip_prefix ''test_'' (''test_'' @ r) = Some r"
      by (simp add: strip_prefix_Some_iff)
    ultimately show "strip_prefix ''def'' t \<bind> greedy_plus isspace \<bind> strip_prefix ''test_'' \<noteq> None"
      by simp
  qed
  then show ?thesis by (auto simp: func_ahead_def split: option.splits)
qed

lemma match_test_shape:
  assumes "match_test s = Some (g, rest)"
  shows "\<exists>ws nm args body. s = g @ rest \<and>
           g = ''def'' @ ws @ ''test_'' @ nm @ ''('' @ args @ ''):'' @ body \<and>
           ws \<noteq> [] \<and> (\<forall>c\<in>set ws. isspace c) \<and> nm \<noteq> [] \<and> (\<forall>c\<in>set nm. isword c) \<and>
           CHR '')'' \<notin> set args \<and> test_ahead rest \<and>
           (\<forall>b1 b2. body = b1 @ b2 \<and> b2 \<noteq> [] \<longrightarrow> \<not> test_ahead (b2 @ rest))"
proof -
  from assms obtain r1 r2 where h: "test_header s = Some r1" and l: "lazy_until test_ahead r1 = Some r2"
    and m: "matched s r2 = Some (g, rest)"
    unfolding match_test_def by (auto simp: bind_eq_Some_conv)
  from m have rest: "r2 = rest" and g: "g = take (length s - length rest) s"
    by (auto simp: matched_def)
  from lazy_until_Some [OF l] rest obtain body where body: "r1 = body @ rest" "test_ahead rest"
    "\<forall>b1 b2. body = b1 @ b2 \<and> b2 \<noteq> [] \<longrightarrow> \<not> test_ahead (b2 @ rest)" by blast
  from test_header_shape [OF h] obtain ws nm args where
    s: "s = ''def'' @ ws @ ''test_'' @ nm @ ''('' @ args @ ''):'' @ r1" and
    c: "ws \<noteq> []" "\<forall>c\<in>set ws. isspace c" "nm \<noteq> []" "\<forall>c\<in>set nm. isword c" "CHR '')'' \<notin> set args"
    by blast
  define H where "H = ''def'' @ ws @ ''test_'' @ nm @ ''('' @ args @ ''):'' @ body"
  have s': "s = H @ rest" using s body(1) by (simp add: H_def)
  have "g = H" unfolding g s' by simp
  with s' c body show ?thesis unfolding H_def by blast
qed

lemma match_func_shape:
  assumes "match_func s = Some (g, rest)"
  shows "\<exists>ws nm args body. s = g @ rest \<and>
           g = ''def'' @ ws @ nm @ ''('' @ args @ ''):'' @ body \<and>
           ws \<noteq> [] \<and> (\<forall>c\<in>set ws. isspace c) \<and> nm \<noteq> [] \<and> (\<forall>c\<in>set nm. isword c) \<and>
           \<not> prefix ''test_'' nm \<and> CHR '')'' \<notin> set args \<and> func_ahead rest \<and>
           (\<forall>b1 b2. body = b1 @ b2 \<and> b2 \<noteq> [] \<longrightarrow> \<not> func_ahead (b2 @ rest))"
proof -
  from assms obtain r1 r2 where h: "func_header s = Some r1" and l: "lazy_until func_ahead r1 = Some r2"
    and m: "matched s r2 = Some (g, rest)"
    unfolding match_func_def by (auto simp: bind_eq_Some_conv)
  from m have rest: "r2 = rest" and g: "g = take (length s - length rest) s"
    by (auto simp: matched_def)
  from lazy_until_Some [OF l] rest obtain body where body: "r1 = body @ rest" "func_ahead rest"
    "\<forall>b1 b2. body = b1 @ b2 \<and> b2 \<noteq> [] \<longrightarrow> \<not> func_ahead (b2 @ rest)" by blast
  from func_header_shape [OF h] obtain ws nm args where
    s: "s = ''def'' @ ws @ nm @ ''('' @ args @ ''):'' @ r1" and
    c: "ws \<noteq> []" "\<forall>c\<in>set ws. isspace c" "nm \<noteq> []" "\<forall>c\<in>set nm. isword c"
       "\<not> prefix ''test_'' nm" "CHR '')'' \<notin> set args"
    by blast
  define H where "H = ''def'' @ ws @ nm @ ''('' @ args @ ''):'' @ body"
  have s': "s = H @ rest" using s body(1) by (simp add: H_def)
  have "g = H" unfolding g s' by simp
  with s' c body show ?thesis unfolding H_def by blast
qed

lemma match_test_splits: "\<forall>t g r. match_test t = Some (g, r) \<longrightarrow> t = g @ r"
  using match_test_shape by blast

lemma match_func_splits: "\<forall>t g r. match_func t = Some (g, r) \<longrightarrow> t = g @ r"
  using match_func_shape by blast

lemma match_func_total: "func_header t = Some r \<Longrightarrow> match_func t \<noteq> None"
  using lazy_until_total [of func_ahead r] by (auto simp: match_func_def matched_def)

lemma match_test_total: "test_header t = Some r \<Longrightarrow> match_test t \<noteq> None"
  using lazy_until_total [of test_ahead r] by (auto simp: match_test_def matched_def)

text \<open>
  Every element of a \<open>findall\<close> result is a match at some position of the text, and
  every position where the pattern matches lies in one of the matches collected.
\<close>

lemma findall_mem:
  "(\<forall>t g r. m t = Some (g, r) \<longrightarrow> t = g @ r) \<Longrightarrow> g \<in> set (findall m s) \<Longrightarrow>
     \<exists>pre rest. s = pre @ g @ rest \<and> m (g @ rest) = Some (g, rest)"
proof (induction m s rule: findall.induct)
  case (1 m s)
  note split = "1.prems"(1) and mem = "1.prems"(2)
  show ?case
  proof (cases "m s")
    case None
    show ?thesis
    proof (cases s)
      case Nil
      with None mem show ?thesis by (simp add: findall.simps)
    next
      case (Cons c cs)
      with None mem have "g \<in> set (findall m cs)" by (simp add: findall.simps)
      from "1.IH"(1) [OF None Cons split this] obtain pre rest where
        "cs = pre @ g @ rest" "m (g @ rest) = Some (g, rest)" by blast
      with Cons show ?thesis by (intro exI [of _ "c # pre"] exI [of _ rest]) simp
    qed
  next
    case (Some a)
    obtain g0 r0 where a: "a = (g0, r0)" by (cases a)
    have s: "s = g0 @ r0" using split Some a by simp
    show ?thesis
    proof (cases "g = g0")
      case True
      with Some a s show ?thesis by (intro exI [of _ "[]"] exI [of _ r0]) simp
    next
      case False
      with mem Some a have lt: "length r0 < length s" and "g \<in> set (findall m r0)"
        by (auto simp: findall.simps split: if_splits)
      from "1.IH"(2) [OF Some a [symmetric] lt split this(2)] obtain pre rest where
        "r0 = pre @ g @ rest" "m (g @ rest) = Some (g, rest)" by blast
      with s show ?thesis by (intro exI [of _ "g0 @ pre"] exI [of _ rest]) simp
    qed
  qed
qed

lemma findall_nonempty: "m t \<noteq> None \<Longrightarrow> findall m (pre @ t) \<noteq> []"
proof (induction pre)
  case Nil
  then show ?case by (auto simp: findall.simps split: if_splits)
next
  case (Cons c pre)
  then show ?case by (cases "m (c # pre @ t)") (auto simp: findall.simps split: if_splits)
qed

lemma append_eq_split:
  "xs @ ys = zs @ ws \<Longrightarrow> length zs \<le> length xs \<Longrightarrow> \<exists>us. xs = zs @ us \<and> ws = us @ ys"
  by (auto simp: append_eq_append_conv2)

lemma findall_covers:
  "(\<forall>t g r. m t = Some (g, r) \<longrightarrow> t = g @ r \<and> g \<noteq> []) \<Longrightarrow> m t \<noteq> None \<Longrightarrow> s = pre @ t \<Longrightarrow>
     \<exists>pre' g rest'. s = pre' @ g @ rest' \<and> m (g @ rest') = Some (g, rest') \<and>
        g \<in> set (findall m s) \<and> length pre' \<le> length pre \<and> length pre < length pre' + length g"
proof (induction m s arbitrary: pre rule: findall.induct)
  case (1 m s)
  note split = "1.prems"(1) and mt = "1.prems"(2) and s = "1.prems"(3)
  show ?case
  proof (cases "m s")
    case None
    with mt s have "pre \<noteq> []" by auto
    then obtain c pre0 where pre: "pre = c # pre0" by (cases pre) auto
    with s obtain cs where cs: "s = c # cs" "cs = pre0 @ t" by simp
    from "1.IH"(1) [OF None cs(1) split mt cs(2)] obtain pre' g rest' where
      "cs = pre' @ g @ rest'" "m (g @ rest') = Some (g, rest')" "g \<in> set (findall m cs)"
      "length pre' \<le> length pre0" "length pre0 < length pre' + length g" by blast
    moreover have "findall m s = findall m cs"
      using None cs(1) by (subst findall.simps) simp
    ultimately have "s = (c # pre') @ g @ rest' \<and> m (g @ rest') = Some (g, rest') \<and>
        g \<in> set (findall m s) \<and> length (c # pre') \<le> length pre \<and>
        length pre < length (c # pre') + length g"
      using cs pre by simp
    then show ?thesis by blast
  next
    case (Some a)
    obtain g0 r0 where a: "a = (g0, r0)" by (cases a)
    have sg: "s = g0 @ r0" and ne: "g0 \<noteq> []" using split Some a by auto
    then have lt: "length r0 < length s" by (cases g0) auto
    have fa: "findall m s = g0 # findall m r0"
      using Some a lt by (subst findall.simps) simp
    show ?thesis
    proof (cases "length pre < length g0")
      case True
      with Some a sg fa have "s = [] @ g0 @ r0 \<and> m (g0 @ r0) = Some (g0, r0) \<and>
          g0 \<in> set (findall m s) \<and> length ([]::string) \<le> length pre \<and>
          length pre < length ([]::string) + length g0"
        by simp
      then show ?thesis by blast
    next
      case False
      then have "length g0 \<le> length pre" by simp
      from append_eq_split [OF s [symmetric, unfolded sg] this] obtain pre1 where
        pre1: "pre = g0 @ pre1" "r0 = pre1 @ t" by blast
      from "1.IH"(2) [OF Some a [symmetric] lt split mt pre1(2)] obtain pre' g rest' where
        "r0 = pre' @ g @ rest'" "m (g @ rest') = Some (g, rest')" "g \<in> set (findall m r0)"
        "length pre' \<le> length pre1" "length pre1 < length pre' + length g" by blast
      with sg fa pre1 have "s = (g0 @ pre') @ g @ rest' \<and> m (g @ rest') = Some (g, rest') \<and>
          g \<in> set (findall m s) \<and> length (g0 @ pre') \<le> length pre \<and>
          length pre < length (g0 @ pre') + length g"
        by simp
      then show ?thesis by blast
    qed
  qed
qed

lemma func_matches_start: "g \<in> set (findall match_func s) \<Longrightarrow> \<exists>x. g = ''def'' @ x"
  using findall_mem [OF match_func_splits] match_func_shape by blast

lemma test_matches_start: "g \<in> set (findall match_test s) \<Longrightarrow> \<exists>x. g = ''def'' @ x"
  using findall_mem [OF match_test_splits] match_test_shape by blast

lemma headers_exclusive:
  assumes f: "g = ''def'' @ ws @ nm @ ''('' @ x" "\<forall>c\<in>set ws. isspace c" "nm \<noteq> []"
      "\<forall>c\<in>set nm. isword c" "\<not> prefix ''test_'' nm"
    and t: "g = ''def'' @ ws' @ ''test_'' @ y" "\<forall>c\<in>set ws'. isspace c"
  shows False
proof -
  have nsp: "\<not> isspace (hd nm)" using f(3,4) space_not_word by (cases nm) auto
  have "dropWhile isspace (ws @ nm @ ''('' @ x) = nm @ ''('' @ x"
    using f(2,3) nsp by (cases nm) (simp_all add: dropWhile_append2)
  moreover have "dropWhile isspace (ws' @ ''test_'' @ y) = ''test_'' @ y"
    using t(2) by (simp add: dropWhile_append2)
  moreover have "ws @ nm @ ''('' @ x = ws' @ ''test_'' @ y" using f(1) t(1) by simp
  ultimately have "nm @ ''('' @ x = ''test_'' @ y" by simp
  then have "prefix ''test_'' (nm @ ''('' @ x)" by (metis prefixI)
  then show False using f(5) test_prefix_of_name by blast
qed

lemma match_test_nonempty: "\<forall>t g r. match_test t = Some (g, r) \<longrightarrow> t = g @ r \<and> g \<noteq> []"
proof (intro allI impI)
  fix t g r assume "match_test t = Some (g, r)"
  from match_test_shape [OF this] obtain x where "t = g @ r" "g = ''def'' @ x" by blast
  then show "t = g @ r \<and> g \<noteq> []" by simp
qed

lemma match_func_nonempty: "\<forall>t g r. match_func t = Some (g, r) \<longrightarrow> t = g @ r \<and> g \<noteq> []"
proof (intro allI impI)
  fix t g r assume "match_func t = Some (g, r)"
  from match_func_shape [OF this] obtain x where "t = g @ r" "g = ''def'' @ x" by blast
  then show "t = g @ r \<and> g \<noteq> []" by simp
qed

lemma test_header_ahead: "test_header t = Some r \<Longrightarrow> test_ahead t"
proof -
  assume "test_header t = Some r"
  from test_header_shape [OF this] obtain ws x where "t = ''def'' @ ws @ x" "ws \<noteq> []"
    "\<forall>c\<in>set ws. isspace c" by blast
  then show ?thesis unfolding test_ahead_iff by (cases ws) auto
qed

lemma test_header_collected:
  assumes "buf = pre @ t" "test_header t \<noteq> None"
  shows "\<exists>pre' g rest' ws nm args body.
           buf = pre' @ g @ rest' \<and> g \<in> set (findall match_test buf) \<and>
           g = ''def'' @ ws @ ''test_'' @ nm @ ''('' @ args @ ''):'' @ body \<and>
           length pre' \<le> length pre \<and>
           length pre < length pre' + length (''def'' @ ws @ ''test_'' @ nm @ ''('' @ args @ ''):'')"
proof -
  from assms(2) obtain r where th: "test_header t = Some r" by auto
  then have "match_test t \<noteq> None" by (rule match_test_total)
  from findall_covers [OF match_test_nonempty this assms(1)] obtain pre' g rest' where
    c: "buf = pre' @ g @ rest'" "match_test (g @ rest') = Some (g, rest')"
       "g \<in> set (findall match_test buf)" "length pre' \<le> length pre"
       "length pre < length pre' + length g" by blast
  from match_test_shape [OF c(2)] obtain ws nm args body where
    g: "g = ''def'' @ ws @ ''test_'' @ nm @ ''('' @ args @ ''):'' @ body" and
    mn: "\<forall>b1 b2. body = b1 @ b2 \<and> b2 \<noteq> [] \<longrightarrow> \<not> test_ahead (b2 @ rest')" by blast
  define H where "H = ''def'' @ ws @ ''test_'' @ nm @ ''('' @ args @ ''):''"
  have gH: "g = H @ body" using g by (simp add: H_def)
  have "length pre < length pre' + length H"
  proof (rule ccontr)
    assume "\<not> length pre < length pre' + length H"
    then have le: "length (pre' @ H) \<le> length pre" by simp
    have "pre @ t = (pre' @ H) @ (body @ rest')" using assms(1) c(1) gH by simp
    from append_eq_split [OF this le] obtain b1 where b1: "pre = (pre' @ H) @ b1" "body @ rest' = b1 @ t"
      by blast
    from b1(1) c(5) gH have "length b1 < length body" by simp
    then have "length b1 \<le> length body" by simp
    from append_eq_split [OF b1(2) this] obtain b2 where b2': "body = b1 @ b2" "t = b2 @ rest'"
      by blast
    with \<open>length b1 < length body\<close> have b2: "body = b1 @ b2" "b2 \<noteq> []" "t = b2 @ rest'"
      by auto
    from mn b2 have "\<not> test_ahead t" by blast
    with test_header_ahead [OF th] show False by simp
  qed
  with c g show ?thesis unfolding H_def by blast
qed

lemma func_header_collected:
  assumes "buf = pre @ t" "func_header t \<noteq> None"
  shows "\<exists>pre' g rest'.
           buf = pre' @ g @ rest' \<and> g \<in> set (findall match_func buf) \<and>
           length pre' \<le> length pre \<and> length pre < length pre' + length g"
proof -
  from assms(2) obtain r where "func_header t = Some r" by auto
  then have "match_func t \<noteq> None" by (rule match_func_total)
  from findall_covers [OF match_func_nonempty this assms(1)] show ?thesis by blast
qed

text \<open>No pattern matches the empty string.\<close>

lemma lazy_until_lit_length:
  "lazy_until_lit d s = Some (b, r) \<Longrightarrow> length r \<le> length s"
proof (induction s arbitrary: b)
  case Nil
  then show ?case by (cases "strip_prefix d []") (auto simp: strip_prefix_Some_iff)
next
  case (Cons c cs)
  show ?case
  proof (cases "strip_prefix d (c # cs)")
    case (Some r')
    with Cons.prems have "r' = r" by simp
    with Some show ?thesis by (simp add: strip_prefix_Some_iff)
  next
    case None
    with Cons.prems obtain b' where "lazy_until_lit d cs = Some (b', r)"
      by (cases "lazy_until_lit d cs") auto
    from Cons.IH [OF this] show ?thesis by simp
  qed
qed

lemma match_fenced_consumes: "match_fenced s = Some (g, rest) \<Longrightarrow> length rest < length s"
proof -
  assume a: "match_fenced s = Some (g, rest)"
  then obtain r where r: "s = ''```'' @ r"
    by (cases "strip_prefix ''```'' s") (auto simp: match_fenced_def strip_prefix_Some_iff)
  then have sp: "strip_prefix ''```'' s = Some r" by (simp add: strip_prefix_Some_iff)
  from a sp obtain r' where "lazy_until_lit ''```'' r' = Some (g, rest)" "length r' \<le> length r"
    unfolding match_fenced_def
    by (cases "strip_prefix ''python'' r \<bind> strip_prefix ''\<newline>'' \<bind> lazy_until_lit ''```''")
       (fastforce simp: bind_eq_Some_conv strip_prefix_Some_iff)+
  with lazy_until_lit_length [of "''```''" r' g rest] r show ?thesis by simp
qed

lemma match_python_consumes: "match_python s = Some (g, rest) \<Longrightarrow> length rest < length s"
proof -
  assume "match_python s = Some (g, rest)"
  then obtain r where "s = ''[PYTHON]'' @ r" "lazy_until_lit ''[/PYTHON]'' r = Some (g, rest)"
    by (auto simp: match_python_def bind_eq_Some_conv strip_prefix_Some_iff)
  with lazy_until_lit_length [of "''[/PYTHON]''" r g rest] show ?thesis by simp
qed

lemma matchers_consume:
  "m \<in> {match_fenced, match_python, match_func, match_test} \<Longrightarrow> m s = Some (g, rest) \<Longrightarrow>
     length rest < length s"
proof -
  assume m: "m \<in> {match_fenced, match_python, match_func, match_test}" and s: "m s = Some (g, rest)"
  have func: "match_func s = Some (g, rest) \<Longrightarrow> length rest < length s"
  proof -
    assume "match_func s = Some (g, rest)"
    from match_func_shape [OF this] obtain x where "s = g @ rest" "g = ''def'' @ x" by blast
    then show ?thesis by simp
  qed
  have test: "match_test s = Some (g, rest) \<Longrightarrow> length rest < length s"
  proof -
    assume "match_test s = Some (g, rest)"
    from match_test_shape [OF this] obtain x where "s = g @ rest" "g = ''def'' @ x" by blast
    then show ?thesis by simp
  qed
  from m s match_fenced_consumes match_python_consumes func test show ?thesis by blast
qed

text \<open>Fenced blocks, trimming and joining.\<close>

lemma fence_prefix_inside:
  "prefix ''```'' (xs @ ''```'' @ t) \<Longrightarrow> xs \<noteq> [] \<Longrightarrow> sublist ''```'' (xs @ ''``'')"
proof -
  assume p: "prefix ''```'' (xs @ ''```'' @ t)" and ne: "xs \<noteq> []"
  have "prefix ''```'' (xs @ ''``'')"
  proof (cases xs)
    case Nil
    with ne show ?thesis by simp
  next
    case (Cons a as)
    show ?thesis
    proof (cases as)
      case Nil
      with Cons p show ?thesis by auto
    next
      case (Cons b bs)
      show ?thesis
      proof (cases bs)
        case Nil
        with Cons \<open>xs = a # as\<close> p show ?thesis by auto
      next
        case (Cons c cs)
        with \<open>as = b # bs\<close> \<open>xs = a # as\<close> p show ?thesis by auto
      qed
    qed
  qed
  then show ?thesis by (rule prefix_imp_sublist)
qed

lemma findall_fenced_reaches:
  "\<not> sublist ''```'' (pre @ ''``'') \<Longrightarrow>
     findall match_fenced (pre @ ''```'' @ t) = findall match_fenced (''```'' @ t)"
proof (induction pre)
  case Nil
  then show ?case by simp
next
  case (Cons c pre)
  have "\<not> prefix ''```'' ((c # pre) @ ''```'' @ t)"
    using fence_prefix_inside [of "c # pre" t] Cons.prems by auto
  then have n: "match_fenced ((c # pre) @ ''```'' @ t) = None"
    using strip_prefix_None_iff [of "''```''" "(c # pre) @ ''```'' @ t"]
    by (simp add: match_fenced_def)
  have "\<not> sublist ''```'' (pre @ ''``'')"
    using Cons.prems by (metis append_Cons sublist_Cons_right)
  from Cons.IH [OF this] n show ?case
    by (subst findall.simps) simp
qed

lemma lazy_until_lit_first_fence:
  "\<not> sublist ''```'' (block @ ''``'') \<Longrightarrow>
     lazy_until_lit ''```'' (block @ ''```'' @ post) = Some (block, post)"
proof (induction block)
  case Nil
  then show ?case by (simp add: strip_prefix_Some_iff)
next
  case (Cons c block)
  have "\<not> prefix ''```'' ((c # block) @ ''```'' @ post)"
    using fence_prefix_inside [of "c # block" post] Cons.prems by auto
  then have n: "strip_prefix ''```'' ((c # block) @ ''```'' @ post) = None"
    using strip_prefix_None_iff by blast
  have "\<not> sublist ''```'' (block @ ''``'')"
    using Cons.prems by (metis append_Cons sublist_Cons_right)
  from Cons.IH [OF this] n show ?case by simp
qed

lemma fenced_block_found:
  assumes "\<not> sublist ''```'' (pre @ ''``'')" "\<not> sublist ''```'' (block @ ''``'')"
    "tag = [] \<or> tag = ''python''"
  shows "block \<in> set (findall match_fenced (pre @ ''```'' @ tag @ ''\<newline>'' @ block @ ''```'' @ post))"
proof -
  define X where "X = ''```'' @ tag @ ''\<newline>'' @ block @ ''```'' @ post"
  have m: "match_fenced X = Some (block, post)"
    using assms(3) lazy_until_lit_first_fence [OF assms(2), of post]
    by (auto simp: X_def match_fenced_def)
  have l: "length post < length X" by (simp add: X_def)
  have "findall match_fenced X = block # findall match_fenced post"
    using m l by (subst findall.simps) simp
  moreover have "findall match_fenced (pre @ ''```'' @ (tag @ ''\<newline>'' @ block @ ''```'' @ post))
      = findall match_fenced (''```'' @ (tag @ ''\<newline>'' @ block @ ''```'' @ post))"
    by (rule findall_fenced_reaches [OF assms(1)])
  ultimately show ?thesis by (simp add: X_def)
qed

lemma join_Cons: "join sep (x # xs) = x @ (if xs = [] then [] else sep @ join sep xs)"
  by (cases xs) simp_all

lemma join_contains: "x \<in> set xs \<Longrightarrow> \<exists>a b. join sep xs = a @ x @ b"
proof (induction xs)
  case Nil
  then show ?case by simp
next
  case (Cons y ys)
  show ?case
  proof (cases "x = y")
    case True
    then show ?thesis unfolding join_Cons
      by (intro exI [of _ "[]"] exI [of _ "if ys = [] then [] else sep @ join sep ys"]) simp
  next
    case False
    with Cons.prems have "x \<in> set ys" by simp
    from Cons.IH [OF this] obtain a b where ab: "join sep ys = a @ x @ b" by blast
    from \<open>x \<in> set ys\<close> have "ys \<noteq> []" by auto
    then show ?thesis unfolding join_Cons using ab
      by (intro exI [of _ "y @ sep @ a"] exI [of _ b]) simp
  qed
qed

lemma strip_empty_iff: "strip s = [] \<longleftrightarrow> (\<forall>c\<in>set s. isspace c)"
proof
  assume "strip s = []"
  then have all: "\<forall>c\<in>set (dropWhile isspace s). isspace c"
    by (simp add: strip_def dropWhile_eq_Nil_conv)
  have "dropWhile isspace s = []"
  proof (rule ccontr)
    assume ne: "dropWhile isspace s \<noteq> []"
    then have "\<not> isspace (hd (dropWhile isspace s))" by (rule hd_dropWhile)
    moreover have "hd (dropWhile isspace s) \<in> set (dropWhile isspace s)" using ne by simp
    ultimately show False using all by blast
  qed
  then show "\<forall>c\<in>set s. isspace c" by (simp add: dropWhile_eq_Nil_conv)
next
  assume "\<forall>c\<in>set s. isspace c"
  then have "dropWhile isspace s = []" by (simp add: dropWhile_eq_Nil_conv)
  then show "strip s = []" unfolding strip_def by (simp only: rev.simps dropWhile.simps)
qed

lemma dropWhile_keeps:
  assumes "H \<noteq> []" "\<not> P (hd H)"
  shows "\<exists>u1. dropWhile P (u @ H @ v) = u1 @ H @ v"
proof (induction u)
  case Nil
  have "dropWhile P (H @ v) = H @ v" using assms by (cases H) auto
  then show ?case by (intro exI [of _ "[]"]) simp
next
  case (Cons c u)
  then show ?case by (cases "P c") (auto intro: exI [of _ "c # u"])
qed

lemma strip_keeps:
  assumes "H \<noteq> []" "\<not> isspace (hd H)" "\<not> isspace (last H)"
  shows "\<exists>u1 v1. strip (u @ H @ v) = u1 @ H @ v1"
proof -
  from dropWhile_keeps [where P = isspace and H = H and u = u and v = v] assms(1,2) obtain u1 where
    a: "dropWhile isspace (u @ H @ v) = u1 @ H @ v" by blast
  have "rev H \<noteq> []" "\<not> isspace (hd (rev H))" using assms by (simp_all add: hd_rev)
  with dropWhile_keeps [where P = isspace and H = "rev H" and u = "rev v" and v = "rev u1"]
  obtain v1 where
    b: "dropWhile isspace (rev v @ rev H @ rev u1) = v1 @ rev H @ rev u1" by blast
  have "strip (u @ H @ v) = u1 @ H @ rev v1" by (simp add: strip_def a b)
  then show ?thesis by blast
qed

lemma join_strip_nonempty:
  assumes "ms \<noteq> []" "\<forall>g\<in>set ms. \<exists>x. g = ''def'' @ x"
  shows "join sep (map strip ms) \<noteq> []"
proof -
  obtain g gs where ms: "ms = g # gs" using assms(1) by (cases ms) auto
  then obtain x where "g = ''def'' @ x" using assms(2) by auto
  then have "\<not> (\<forall>c\<in>set g. isspace c)" by auto
  then have "strip g \<noteq> []" using strip_empty_iff by blast
  then show ?thesis using ms by (simp add: join_Cons)
qed

lemma save_code_and_tests_fst:
  "fst (save_code_and_tests response session_id f) =
     (if code_blocks response = [] \<or>
         findall match_func (join ''\<newline>\<newline>'' (code_blocks response)) = [] \<or>
         findall match_test (join ''\<newline>\<newline>'' (code_blocks response)) = []
      then (False, [], [])
      else (True,
            join ''\<newline>\<newline>'' (map strip (findall match_func (join ''\<newline>\<newline>'' (code_blocks response)))),
            join ''\<newline>\<newline>'' (map strip (findall match_test (join ''\<newline>\<newline>'' (code_blocks response))))))"
  by (simp add: save_code_and_tests_def Let_def)

lemma app_save_code_and_tests_fst:
  "fst (app_save_code_and_tests response f) =
     (\<not> (code_blocks response = [] \<or>
         findall match_func (join ''\<newline>\<newline>'' (code_blocks response)) = [] \<or>
         findall match_test (join ''\<newline>\<newline>'' (code_blocks response)) = []))"
  by (simp add: app_save_code_and_tests_def Let_def)

lemma code_blocks_mem:
  "block \<in> set (findall match_fenced response) \<union> set (findall match_python response) \<Longrightarrow>
     strip block \<in> set (code_blocks response)"
  by (auto simp: code_blocks_def Let_def)

lemma header_in_combined:
  assumes "block \<in> set (findall match_fenced response) \<union> set (findall match_python response)"
    and "block = u @ H @ v" "H \<noteq> []" "\<not> isspace (hd H)" "\<not> isspace (last H)"
  shows "\<exists>a b. join sep (code_blocks response) = a @ H @ b"
proof -
  from strip_keeps [OF assms(3-5), of u v] assms(2) obtain u1 v1 where
    s: "strip block = u1 @ H @ v1" by auto
  from join_contains [OF code_blocks_mem [OF assms(1)], of sep] obtain a b where
    "join sep (code_blocks response) = a @ strip block @ b" by blast
  then have "join sep (code_blocks response) = (a @ u1) @ H @ (v1 @ b)" using s by simp
  then show ?thesis by blast
qed

lemma blocks_with_headers_extracted:
  assumes fb: "fblock \<in> set (findall match_fenced response) \<union> set (findall match_python response)"
    and f: "fblock = u @ ''def'' @ ws @ nm @ ''('' @ args @ ''):'' @ v"
      "ws \<noteq> []" "\<forall>c\<in>set ws. isspace c" "nm \<noteq> []" "\<forall>c\<in>set nm. isword c"
      "\<not> prefix ''test_'' nm" "CHR '')'' \<notin> set args"
    and tb: "tblock \<in> set (findall match_fenced response) \<union> set (findall match_python response)"
    and t: "tblock = u' @ ''def'' @ ws' @ ''test_'' @ nm' @ ''('' @ args' @ ''):'' @ v'"
      "ws' \<noteq> []" "\<forall>c\<in>set ws'. isspace c" "nm' \<noteq> []" "\<forall>c\<in>set nm'. isword c"
      "CHR '')'' \<notin> set args'"
  shows "\<exists>func_code test_code.
           fst (save_code_and_tests response session_id fs0) = (True, func_code, test_code) \<and>
           func_code \<noteq> [] \<and> test_code \<noteq> []"
proof -
  define combined where "combined = join ''\<newline>\<newline>'' (code_blocks response)"
  define HF where "HF = ''def'' @ ws @ nm @ ''('' @ args @ ''):''"
  have hf: "HF \<noteq> []" "\<not> isspace (hd HF)" "\<not> isspace (last HF)" by (simp_all add: HF_def)
  have "fblock = u @ HF @ v" using f(1) by (simp add: HF_def)
  from header_in_combined [OF fb this hf, of "''\<newline>\<newline>''"] obtain a b where
    cf: "combined = a @ (''def'' @ ws @ nm @ ''('' @ args @ ''):'' @ b)"
    by (auto simp: HF_def combined_def)
  have "func_header (''def'' @ ws @ nm @ ''('' @ args @ ''):'' @ b) = Some b"
    using f(2-7) by (rule func_header_intro)
  then have fm: "findall match_func combined \<noteq> []"
    unfolding cf by (intro findall_nonempty match_func_total)
  define HT where "HT = ''def'' @ ws' @ ''test_'' @ nm' @ ''('' @ args' @ ''):''"
  have ht: "HT \<noteq> []" "\<not> isspace (hd HT)" "\<not> isspace (last HT)" by (simp_all add: HT_def)
  have "tblock = u' @ HT @ v'" using t(1) by (simp add: HT_def)
  from header_in_combined [OF tb this ht, of "''\<newline>\<newline>''"] obtain a' b' where
    ct: "combined = a' @ (''def'' @ ws' @ ''test_'' @ nm' @ ''('' @ args' @ ''):'' @ b')"
    by (auto simp: HT_def combined_def)
  have "test_header (''def'' @ ws' @ ''test_'' @ nm' @ ''('' @ args' @ ''):'' @ b') = Some b'"
    using t(2-6) by (rule test_header_intro)
  then have tm: "findall match_test combined \<noteq> []"
    unfolding ct by (intro findall_nonempty match_test_total)
  have fc: "join ''\<newline>\<newline>'' (map strip (findall match_func combined)) \<noteq> []"
    using fm func_matches_start by (intro join_strip_nonempty) auto
  have tc: "join ''\<newline>\<newline>'' (map strip (findall match_test combined)) \<noteq> []"
    using tm test_matches_start by (intro join_strip_nonempty) auto
  have ne: "code_blocks response \<noteq> []" using code_blocks_mem [OF fb] by auto
  show ?thesis
    unfolding save_code_and_tests_fst using ne fm tc fc tm unfolding combined_def by simp
qed

text \<open>The sample replies, evaluated.\<close>

lemma range_3: "[0..<3] = [0, 1, 2::nat]"
  by code_simp

lemma offline_reply_no_blocks: "code_blocks (error_reply ''Connection refused'') = []"
  by code_simp

lemma plain_reply_blocks:
  "code_blocks plain_reply =
     [''def f(x):\<newline>    return x\<newline>\<newline>def test_f():\<newline>    assert f(1) == 1'']"
  by code_simp

lemma plain_reply_func_matches:
  "findall match_func (join ''\<newline>\<newline>'' (code_blocks plain_reply)) = [''def f(x):\<newline>    return x\<newline>\<newline>'']"
  by code_simp

lemma plain_reply_test_matches:
  "findall match_test (join ''\<newline>\<newline>'' (code_blocks plain_reply)) = [''def test_f():\<newline>    assert f(1) == 1'']"
  by code_simp

lemma strip_func: "strip ''def f(x):\<newline>    return x\<newline>\<newline>'' = ''def f(x):\<newline>    return x''"
  by code_simp

lemma strip_test: "strip ''def test_f():\<newline>    assert f(1) == 1'' = ''def test_f():\<newline>    assert f(1) == 1''"
  by code_simp

lemma save_plain_reply:
  "save_code_and_tests plain_reply session_id f =
     ((True, ''def f(x):\<newline>    return x'', ''def test_f():\<newline>    assert f(1) == 1''),
      persist session_id ''def f(x):\<newline>    return x'' ''def test_f():\<newline>    assert f(1) == 1'' f)"
  unfolding save_code_and_tests_def Let_def plain_reply_func_matches plain_reply_test_matches
  by (simp add: plain_reply_blocks strip_func strip_test)

lemma app_save_plain_reply:
  "app_save_code_and_tests plain_reply f =
     (True, app_persist ''def f(x):\<newline>    return x'' ''def test_f():\<newline>    assert f(1) == 1'' f)"
  unfolding app_save_code_and_tests_def Let_def plain_reply_func_matches plain_reply_test_matches
  by (simp add: plain_reply_blocks strip_func strip_test)

lemma save_offline_reply:
  "save_code_and_tests (error_reply ''Connection refused'') session_id f = ((False, [], []), f)"
  by (simp add: save_code_and_tests_def offline_reply_no_blocks)

lemma app_save_offline_reply:
  "app_save_code_and_tests (error_reply ''Connection refused'') f = (False, f)"
  by (simp add: app_save_code_and_tests_def offline_reply_no_blocks)

lemma no_failure_text_in_full_prompt:
  "\<not> sublist ''Failed to parse code blocks'' (full_prompt ''p'')"
  by code_simp

lemma generate_passing:
  "fst (generate env_passing request_p world0) =
     Inr (Succeeded
       [\<lparr>att_attempt = 1, att_ai_response = plain_reply, att_success = True,
         att_func_code = ''def f(x):\<newline>    return x'',
         att_test_code = ''def test_f():\<newline>    assert f(1) == 1'',
         att_test_output = ''1 passed'', att_error = []\<rparr>]
       ''def f(x):\<newline>    return x'' ''def test_f():\<newline>    assert f(1) == 1'' ''1 passed'')"
  by (simp add: generate_def request_p_def cycle_def next_reply_def generate_task_def env_passing_def world0_def
        save_plain_reply run_tests_def range_3)

lemma generate_offline:
  "fst (generate env_offline request_p world0) =
     Inr (Exhausted
       [\<lparr>att_attempt = 1, att_ai_response = error_reply ''Connection refused'', att_success = False,
         att_func_code = [], att_test_code = [], att_test_output = [],
         att_error = ''Failed to parse code blocks from AI response''\<rparr>,
        \<lparr>att_attempt = 2, att_ai_response = error_reply ''Connection refused'', att_success = False,
         att_func_code = [], att_test_code = [], att_test_output = [],
         att_error = ''Failed to parse code blocks from AI response''\<rparr>,
        \<lparr>att_attempt = 3, att_ai_response = error_reply ''Connection refused'', att_success = False,
         att_func_code = [], att_test_code = [], att_test_output = [],
         att_error = ''Failed to parse code blocks from AI response''\<rparr>]
       ''Failed after 3 attempts'')"
proof -
  have s: "str_nat 3 = ''3''" by code_simp
  show ?thesis
    by (simp add: generate_def request_p_def cycle_def next_reply_def generate_task_def env_offline_def world0_def
        save_offline_reply range_3 s Let_def)
qed

lemma generate_offline_prompts:
  "map payload_prompt (posted (snd (generate env_offline request_p world0))) =
     [full_prompt ''p'', full_prompt ''p'', full_prompt ''p'']"
  by (simp add: generate_def request_p_def cycle_def next_reply_def generate_task_def env_offline_def world0_def
        save_offline_reply range_3 request_payload_def cleanup_session_files_def Let_def)

section \<open>Facts about the orchestrators\<close>

lemma save_code_and_tests_cases:
  "save_code_and_tests response session_id f = ((saved, func_code, test_code), f') \<Longrightarrow>
     (if saved then f' = persist session_id func_code test_code f \<and> func_code \<noteq> []
      else func_code = [] \<and> test_code = [] \<and> f' = f)"
proof -
  assume a: "save_code_and_tests response session_id f = ((saved, func_code, test_code), f')"
  show ?thesis
  proof (cases saved)
    case False
    with a show ?thesis by (auto simp: save_code_and_tests_def Let_def split: if_splits)
  next
    case True
    with a have f': "f' = persist session_id func_code test_code f"
      and fm: "findall match_func (join ''\<newline>\<newline>'' (code_blocks response)) \<noteq> []"
      and fc: "func_code = join ''\<newline>\<newline>'' (map strip (findall match_func (join ''\<newline>\<newline>'' (code_blocks response))))"
      by (auto simp: save_code_and_tests_def Let_def split: if_splits)
    have "func_code \<noteq> []"
      unfolding fc using fm func_matches_start by (intro join_strip_nonempty) auto
    with True f' show ?thesis by simp
  qed
qed

lemma persist_func_file:
  "persist session_id func_code test_code f (func_file_of session_id) = Some (func_code @ ''\<newline>'')"
  by (simp add: persist_def func_file_of_def test_file_of_def)

lemma run_tests_world:
  "snd (run_tests E session_id w) = w\<lparr>spawned := spawned w @ [run_tests_argv session_id]\<rparr>"
  by (simp add: run_tests_def Let_def split: proc_outcome.splits)

lemma run_tests_preserves:
  "run_tests E session_id w = (r, w') \<Longrightarrow> posted w' = posted w \<and> files w' = files w"
  using run_tests_world [of E session_id w] by auto

lemma generate_task_world:
  "snd (generate_task E prompt model temperature w) =
     w\<lparr>posted := posted w @ [request_payload prompt model temperature]\<rparr>"
  by (simp add: generate_task_def Let_def)

lemma universal_newlines_id: "CHR 0x0D \<notin> set s \<Longrightarrow> universal_newlines s = s"
  by (induction s rule: universal_newlines.induct) auto

lemma cleanup_posted [simp]: "posted (cleanup_session_files session_id w) = posted w"
  by (simp add: cleanup_session_files_def)

lemma cleanup_removes:
  "files (cleanup_session_files session_id w) (func_file_of session_id) = None \<and>
   files (cleanup_session_files session_id w) (test_file_of session_id) = None"
  by (simp add: cleanup_session_files_def os_remove_def)

text \<open>What one turn of the web loop posts and leaves behind.\<close>

lemma next_reply_first:
  "next_reply E prompt session_id 0 last_error w =
     Inr (generate_task E (full_prompt prompt) default_model default_temperature w)"
  by (simp add: next_reply_def)

lemma next_reply_retry:
  "next_reply E prompt session_id (Suc attempt) (Some e) w =
     Inr (generate_task E (expected_prompt prompt e (files w (func_file_of session_id)))
            default_model default_temperature w)"
  by (cases "files w (func_file_of session_id)")
     (simp_all add: next_reply_def read_text_def fix_failing_code_def fix_prompt_def
        expected_prompt_def)

lemma next_reply_world:
  "next_reply E prompt session_id attempt last_error w = Inr (result, w1) \<Longrightarrow>
     files w1 = files w \<and> (\<exists>pl. posted w1 = posted w @ [pl])"
  by (auto simp: next_reply_def read_text_def fix_failing_code_def generate_task_def Let_def
        split: if_splits option.splits sum.splits)

lemma cycle_escaped_early:
  "next_reply E prompt session_id attempt last_error w = Inl x \<Longrightarrow>
     cycle E prompt session_id attempt last_error w = (Escaped x, w)"
  by (simp add: cycle_def)

lemma cycle_after_reply:
  assumes nr: "next_reply E prompt session_id attempt last_error w = Inr (result, w1)"
    and c: "cycle E prompt session_id attempt last_error w = (out, w')"
  shows "posted w' = posted w1"
    and "out = Failed r e \<Longrightarrow>
           files w' (func_file_of session_id) =
             (if att_func_code r \<noteq> [] then Some (att_func_code r @ ''\<newline>'')
              else files w1 (func_file_of session_id)) \<and>
           e = (if att_func_code r \<noteq> [] then att_error r else ''Failed to parse code blocks'')"
proof -
  obtain saved func_code test_code f' where
    s: "save_code_and_tests result session_id (files w1) = ((saved, func_code, test_code), f')"
    by (metis prod.exhaust)
  note sc = save_code_and_tests_cases [OF s]
  obtain tr w3 where rt: "run_tests E session_id (w1\<lparr>files := f'\<rparr>) = (tr, w3)"
    by (metis prod.exhaust)
  from run_tests_preserves [OF rt] have w3: "files w3 = f'" "posted w3 = posted w1" by simp_all
  show "posted w' = posted w1"
    using c nr s rt w3
    by (cases saved; cases tr) (auto simp: cycle_def Let_def split: if_splits)
  show "out = Failed r e \<Longrightarrow>
           files w' (func_file_of session_id) =
             (if att_func_code r \<noteq> [] then Some (att_func_code r @ ''\<newline>'')
              else files w1 (func_file_of session_id)) \<and>
           e = (if att_func_code r \<noteq> [] then att_error r else ''Failed to parse code blocks'')"
    using c nr s rt w3 sc
    by (cases saved; cases tr) (auto simp: cycle_def Let_def persist_func_file split: if_splits)
qed

lemma cycle_posted_prefix:
  "posted (snd (cycle E prompt session_id attempt last_error w)) = posted w \<or>
   (\<exists>pl. posted (snd (cycle E prompt session_id attempt last_error w)) = posted w @ [pl])"
proof (cases "next_reply E prompt session_id attempt last_error w")
  case (Inl x)
  then show ?thesis by (simp add: cycle_escaped_early)
next
  case (Inr a)
  obtain result w1 where a: "a = (result, w1)" by (cases a)
  obtain out w' where c: "cycle E prompt session_id attempt last_error w = (out, w')"
    by (cases "cycle E prompt session_id attempt last_error w")
  from cycle_after_reply(1) [OF Inr [unfolded a] c] next_reply_world [OF Inr [unfolded a]] c
  show ?thesis by auto
qed

lemma cycle_first_posted:
  "posted (snd (cycle E prompt session_id 0 last_error w)) =
     posted w @ [request_payload (full_prompt prompt) default_model default_temperature]"
proof -
  obtain result w1 where
    g: "generate_task E (full_prompt prompt) default_model default_temperature w = (result, w1)"
    by (metis prod.exhaust)
  have nr: "next_reply E prompt session_id 0 last_error w = Inr (result, w1)"
    unfolding next_reply_first g ..
  obtain out w' where c: "cycle E prompt session_id 0 last_error w = (out, w')"
    by (cases "cycle E prompt session_id 0 last_error w")
  from cycle_after_reply(1) [OF nr c] generate_task_world [of E "full_prompt prompt" default_model default_temperature w] g c
  show ?thesis by auto
qed

lemma cycle_posted_le:
  "length (posted (snd (cycle E prompt session_id attempt last_error w))) \<le> Suc (length (posted w))"
  using cycle_posted_prefix [of E prompt session_id attempt last_error w] by auto

lemma cycle_unparsable:
  assumes "\<forall>n pl. code_blocks (reply_text (endpoint E n pl)) = []"
    and "attempt = 0 \<or> last_error \<noteq> None"
  shows "\<exists>r e w'. cycle E prompt session_id attempt last_error w = (Failed r e, w') \<and>
           length (posted w') = Suc (length (posted w))"
proof -
  have "\<exists>P. next_reply E prompt session_id attempt last_error w =
          Inr (generate_task E P default_model default_temperature w)"
  proof (cases attempt)
    case 0
    then show ?thesis using next_reply_first by blast
  next
    case (Suc k)
    with assms(2) obtain e where "last_error = Some e" by auto
    with Suc show ?thesis using next_reply_retry by blast
  qed
  then obtain P where
    nr: "next_reply E prompt session_id attempt last_error w =
          Inr (generate_task E P default_model default_temperature w)" by blast
  have s: "save_code_and_tests (fst (generate_task E P default_model default_temperature w)) session_id
             (files (snd (generate_task E P default_model default_temperature w)))
           = ((False, [], []), files (snd (generate_task E P default_model default_temperature w)))"
    using assms(1) by (simp add: save_code_and_tests_def generate_task_def Let_def)
  have p: "length (posted (snd (generate_task E P default_model default_temperature w)))
           = Suc (length (posted w))"
    by (simp add: generate_task_world)
  show ?thesis
    using nr s p by (cases "generate_task E P default_model default_temperature w")
      (auto simp: cycle_def Let_def)
qed

text \<open>The web loop as a whole.\<close>

lemma generate_loop_returns_clean:
  "fst (generate_loop E prompt session_id max_retries xs last_error attempts w) = Inr resp \<Longrightarrow>
     files (snd (generate_loop E prompt session_id max_retries xs last_error attempts w))
       (func_file_of session_id) = None \<and>
     files (snd (generate_loop E prompt session_id max_retries xs last_error attempts w))
       (test_file_of session_id) = None"
proof (induction xs arbitrary: last_error attempts w)
  case Nil
  then show ?case using cleanup_removes by simp
next
  case (Cons attempt later)
  obtain out w' where c: "cycle E prompt session_id attempt last_error w = (out, w')"
    by (cases "cycle E prompt session_id attempt last_error w")
  show ?case
  proof (cases out)
    case (Passed r)
    with c show ?thesis using cleanup_removes by simp
  next
    case (Failed r e)
    with c Cons.prems Cons.IH [of "Some e" "attempts @ [r]" w'] show ?thesis by simp
  next
    case (Escaped x)
    with c Cons.prems show ?thesis by simp
  qed
qed

lemma generate_loop_posted_le:
  "length (posted (snd (generate_loop E prompt session_id max_retries xs last_error attempts w)))
     \<le> length (posted w) + length xs"
proof (induction xs arbitrary: last_error attempts w)
  case Nil
  then show ?case by simp
next
  case (Cons attempt later)
  obtain out w' where c: "cycle E prompt session_id attempt last_error w = (out, w')"
    by (cases "cycle E prompt session_id attempt last_error w")
  have le: "length (posted w') \<le> Suc (length (posted w))"
    using cycle_posted_le [of E prompt session_id attempt last_error w] c by simp
  show ?case
  proof (cases out)
    case (Passed r)
    with c le show ?thesis by simp
  next
    case (Failed r e)
    with c le Cons.IH [of "Some e" "attempts @ [r]" w'] show ?thesis by simp
  next
    case (Escaped x)
    with c le show ?thesis by simp
  qed
qed

lemma generate_loop_posted_prefix:
  "\<exists>later_posts. posted (snd (generate_loop E prompt session_id max_retries xs last_error attempts w))
     = posted w @ later_posts"
proof (induction xs arbitrary: last_error attempts w)
  case Nil
  then show ?case by simp
next
  case (Cons attempt later)
  obtain out w' where c: "cycle E prompt session_id attempt last_error w = (out, w')"
    by (cases "cycle E prompt session_id attempt last_error w")
  from cycle_posted_prefix [of E prompt session_id attempt last_error w] c
  obtain ps where ps: "posted w' = posted w @ ps" by auto
  show ?case
  proof (cases out)
    case (Passed r)
    with c ps show ?thesis by simp
  next
    case (Failed r e)
    from Cons.IH [of "Some e" "attempts @ [r]" w'] obtain qs where
      "posted (snd (generate_loop E prompt session_id max_retries later (Some e) (attempts @ [r]) w'))
         = posted w' @ qs" by blast
    with c ps Failed show ?thesis by simp
  next
    case (Escaped x)
    with c ps show ?thesis by simp
  qed
qed

lemma generate_loop_retry_prompts:
  "fst (generate_loop E prompt session_id max_retries xs (Some e) attempts w) = Inr resp \<Longrightarrow>
   0 \<notin> set xs \<Longrightarrow>
     \<exists>new. attempts_of (Inr resp) = attempts @ new \<and>
       map payload_prompt
         (drop (length (posted w))
            (posted (snd (generate_loop E prompt session_id max_retries xs (Some e) attempts w)))) =
       take (length new)
         (expected_prompt prompt e (files w (func_file_of session_id)) #
          expected_retry_prompts prompt (files w (func_file_of session_id)) new)"
proof (induction xs arbitrary: e attempts w)
  case Nil
  then show ?case by auto
next
  case (Cons attempt later)
  from Cons.prems(2) obtain k where k: "attempt = Suc k" and later: "0 \<notin> set later"
    by (cases attempt) auto
  define P where "P = expected_prompt prompt e (files w (func_file_of session_id))"
  obtain result w1 where
    g: "generate_task E P default_model default_temperature w = (result, w1)"
    by (metis prod.exhaust)
  have nr: "next_reply E prompt session_id attempt (Some e) w = Inr (result, w1)"
    unfolding k next_reply_retry P_def [symmetric] g ..
  have w1: "posted w1 = posted w @ [request_payload P default_model default_temperature]"
    "files w1 = files w"
    using generate_task_world [of E P default_model default_temperature w] g by auto
  obtain out w' where c: "cycle E prompt session_id attempt (Some e) w = (out, w')"
    by (cases "cycle E prompt session_id attempt (Some e) w")
  have pw': "posted w' = posted w @ [request_payload P default_model default_temperature]"
    using cycle_after_reply(1) [OF nr c] w1 by simp
  show ?case
  proof (cases out)
    case (Passed r)
    with c Cons.prems(1) have "attempts_of (Inr resp) = attempts @ [r]" by auto
    moreover have "map payload_prompt (drop (length (posted w))
        (posted (snd (generate_loop E prompt session_id max_retries (attempt # later) (Some e) attempts w))))
        = [P]"
      using c Passed pw' by (simp add: request_payload_def)
    ultimately show ?thesis unfolding P_def [symmetric] by (intro exI [of _ "[r]"]) simp
  next
    case (Escaped x)
    with c Cons.prems(1) show ?thesis by simp
  next
    case (Failed r e')
    define final where
      "final = snd (generate_loop E prompt session_id max_retries later (Some e') (attempts @ [r]) w')"
    have step: "generate_loop E prompt session_id max_retries (attempt # later) (Some e) attempts w
        = generate_loop E prompt session_id max_retries later (Some e') (attempts @ [r]) w'"
      using c Failed by simp
    from Cons.prems(1) have
      "fst (generate_loop E prompt session_id max_retries later (Some e') (attempts @ [r]) w') = Inr resp"
      unfolding step .
    from Cons.IH [OF this later] obtain new where
      at: "attempts_of (Inr resp) = (attempts @ [r]) @ new" and
      pr: "map payload_prompt (drop (length (posted w')) (posted final)) =
             take (length new)
               (expected_prompt prompt e' (files w' (func_file_of session_id)) #
                expected_retry_prompts prompt (files w' (func_file_of session_id)) new)"
      unfolding final_def by blast
    from generate_loop_posted_prefix [of E prompt session_id max_retries later "Some e'" "attempts @ [r]" w']
    obtain qs where qs: "posted final = posted w' @ qs" unfolding final_def by blast
    from cycle_after_reply(2) [OF nr c Failed] w1(2) have
      st: "files w' (func_file_of session_id) =
             (if att_func_code r \<noteq> [] then Some (att_func_code r @ ''\<newline>'')
              else files w (func_file_of session_id))"
          "e' = (if att_func_code r \<noteq> [] then att_error r else ''Failed to parse code blocks'')"
      by simp_all
    have ex: "expected_retry_prompts prompt (files w (func_file_of session_id)) (r # new) =
        expected_prompt prompt e' (files w' (func_file_of session_id)) #
        expected_retry_prompts prompt (files w' (func_file_of session_id)) new"
      using st by (simp add: Let_def)
    have "map payload_prompt (drop (length (posted w)) (posted final)) =
        P # map payload_prompt (drop (length (posted w')) (posted final))"
      unfolding qs pw' by (simp add: request_payload_def)
    then have "map payload_prompt (drop (length (posted w)) (posted final)) =
        take (length (r # new))
          (P # expected_retry_prompts prompt (files w (func_file_of session_id)) (r # new))"
      unfolding pr ex by simp
    with at show ?thesis
      unfolding step final_def [symmetric] P_def [symmetric]
      by (intro exI [of _ "r # new"]) simp
  qed
qed

lemma generate_loop_unparsable:
  assumes "\<forall>n pl. code_blocks (reply_text (endpoint E n pl)) = []"
  shows "(xs = [] \<or> hd xs = 0 \<or> last_error \<noteq> None) \<Longrightarrow>
         \<exists>all_attempts msg w'.
           generate_loop E prompt session_id max_retries xs last_error attempts w
             = (Inr (Exhausted all_attempts msg), w') \<and>
           length all_attempts = length attempts + length xs \<and>
           length (posted w') = length (posted w) + length xs"
proof (induction xs arbitrary: last_error attempts w)
  case Nil
  then show ?case by simp
next
  case (Cons attempt later)
  then have "attempt = 0 \<or> last_error \<noteq> None" by simp
  from cycle_unparsable [OF assms this, of prompt session_id w] obtain r e w1 where
    c: "cycle E prompt session_id attempt last_error w = (Failed r e, w1)"
    and p: "length (posted w1) = Suc (length (posted w))" by blast
  from Cons.IH [of "Some e" "attempts @ [r]" w1] obtain all_attempts msg w' where
    "generate_loop E prompt session_id max_retries later (Some e) (attempts @ [r]) w1
       = (Inr (Exhausted all_attempts msg), w')"
    "length all_attempts = length (attempts @ [r]) + length later"
    "length (posted w') = length (posted w1) + length later" by auto
  with c p show ?case by simp
qed

text \<open>
  The web orchestrator keeps the retry bound: it posts at most three requests, the first
  with the enhanced prompt of the task, and when no reply holds a code block it posts
  exactly three and returns the failure body with three attempt records.
\<close>

lemma generate_retry_bound:
  "length (posted (snd (generate E data w))) \<le> length (posted w) + 3 \<and>
   (data ''prompt'' = Some p \<and> p \<noteq> [] \<longrightarrow>
      (\<exists>later_posts. posted (snd (generate E data w)) =
         posted w @ request_payload (full_prompt p) default_model default_temperature # later_posts)) \<and>
   ((\<forall>n pl. code_blocks (reply_text (endpoint E n pl)) = []) \<and> data ''prompt'' = Some p \<and> p \<noteq> [] \<longrightarrow>
      length (posted (snd (generate E data w))) = length (posted w) + 3 \<and>
      (\<exists>all_attempts msg. fst (generate E data w) = Inr (Exhausted all_attempts msg) \<and>
         length all_attempts = 3))"
proof (intro conjI impI)
  show "length (posted (snd (generate E data w))) \<le> length (posted w) + 3"
    using generate_loop_posted_le [of E _ _ 3 "[0..<3]" None "[]" w]
    by (auto simp: generate_def Let_def)
next
  assume h: "data ''prompt'' = Some p \<and> p \<noteq> []"
  define session_id where "session_id = (case data ''session_id'' of Some s \<Rightarrow> s | None \<Rightarrow> ''default'')"
  have g: "generate E data w = generate_loop E p session_id 3 [0..<3] None [] w"
    using h by (simp add: generate_def session_id_def Let_def)
  obtain out w1 where c: "cycle E p session_id 0 None w = (out, w1)"
    by (cases "cycle E p session_id 0 None w")
  have p1: "posted w1 = posted w @ [request_payload (full_prompt p) default_model default_temperature]"
    using cycle_first_posted [of E p session_id None w] c by simp
  show "\<exists>later_posts. posted (snd (generate E data w)) =
         posted w @ request_payload (full_prompt p) default_model default_temperature # later_posts"
  proof (cases out)
    case (Passed r)
    with c p1 show ?thesis unfolding g range_3 by simp
  next
    case (Failed r e)
    from generate_loop_posted_prefix [of E p session_id 3 "[1, 2]" "Some e" "[r]" w1]
    obtain qs where "posted (snd (generate_loop E p session_id 3 [1, 2] (Some e) [r] w1)) = posted w1 @ qs"
      by blast
    with c p1 Failed show ?thesis unfolding g range_3 by simp
  next
    case (Escaped x)
    with c p1 show ?thesis unfolding g range_3 by simp
  qed
next
  assume h: "(\<forall>n pl. code_blocks (reply_text (endpoint E n pl)) = []) \<and> data ''prompt'' = Some p \<and> p \<noteq> []"
  define session_id where "session_id = (case data ''session_id'' of Some s \<Rightarrow> s | None \<Rightarrow> ''default'')"
  have g: "generate E data w = generate_loop E p session_id 3 [0..<3] None [] w"
    using h by (simp add: generate_def session_id_def Let_def)
  from h have u: "\<forall>n pl. code_blocks (reply_text (endpoint E n pl)) = []" by blast
  from generate_loop_unparsable [OF u, of "[0..<3]" None p session_id 3 "[]" w]
  obtain all_attempts msg w' where
    r: "generate_loop E p session_id 3 [0..<3] None [] w = (Inr (Exhausted all_attempts msg), w')"
       "length all_attempts = length ([]::attempt_data list) + length [0..<3]"
       "length (posted w') = length (posted w) + length [0..<3]"
    by (auto simp: range_3)
  show "length (posted (snd (generate E data w))) = length (posted w) + 3"
    unfolding g using r by simp
  show "\<exists>all_attempts msg. fst (generate E data w) = Inr (Exhausted all_attempts msg) \<and>
         length all_attempts = 3"
    unfolding g using r by simp
qed

lemma generate_failing:
  "fst (generate env_failing request_p world0) =
     Inr (Exhausted
       [failing_record 1 ''1 failed\<newline>AssertionError'',
        failing_record 2 ''1 failed\<newline>TypeError'',
        failing_record 3 ''1 failed\<newline>TypeError'']
       ''Failed after 3 attempts'')"
proof -
  have s: "str_nat 3 = ''3''" by code_simp
  show ?thesis
    by (simp add: generate_def request_p_def cycle_def next_reply_def read_text_def
          fix_failing_code_def generate_task_def env_failing_def world0_def save_plain_reply
          run_tests_def range_3 s Let_def failing_record_def persist_func_file)
qed

section \<open>Results: model client\<close>

text \<open>
  C9. The model client never raises. Whatever the endpoint does, \<open>generate_task\<close> returns
  a text: the completion when the request succeeds, and otherwise the fixed message
  starting with \<open>Error:\<close> followed by the details of the exception that was caught,
  whichever of the three steps inside the \<open>try\<close> block raised it.
\<close>

theorem generate_task_never_raises:
  "(\<exists>r. endpoint E (length (posted w)) (request_payload prompt model temperature) = Replied r \<and>
        fst (generate_task E prompt model temperature w) = r) \<or>
   (\<exists>e. endpoint E (length (posted w)) (request_payload prompt model temperature)
          \<in> {PostRaised e, StatusRaised e, BodyRaised e} \<and>
        fst (generate_task E prompt model temperature w) =
          ''Error: Unable to connect to the model server or generate a response.\<newline>Details: '' @ e)"
  by (cases "endpoint E (length (posted w)) (request_payload prompt model temperature)")
     (simp_all add: generate_task_def error_reply_def)

text \<open>
  C10. The temperature argument of \<open>generate_task\<close> is never forwarded: two invocations
  that agree on prompt and model build the same request payload, whatever their
  temperatures, and produce the same reply and the same posted request.
\<close>

theorem generate_task_ignores_temperature:
  "request_payload prompt model t1 = request_payload prompt model t2 \<and>
   generate_task E prompt model t1 w = generate_task E prompt model t2 w"
  by (simp add: generate_task_def request_payload_def)

section \<open>Results: code block extractor\<close>

text \<open>
  C3, as stated, fails on a reply whose fenced block holds one implementation and one
  test: the implementation carries a return annotation, the implementation pattern wants
  the colon right after the closing parenthesis, no implementation is found and the
  extraction fails.
\<close>

theorem annotated_definition_not_extracted:
  "fst (save_code_and_tests annotated_reply ''s'' Map.empty) = (False, [], [])"
  by code_simp

text \<open>
  C3, amended. Extraction fails exactly when no code block is found, or the
  implementation pattern matches nowhere in the combined buffer, or the test pattern
  matches nowhere in it; the three causes are not told apart, each returns
  \<open>(False, "", "")\<close>, and both orchestrators' extractors succeed on the same replies.
  Extraction succeeds, with both groups non-empty, whenever the blocks collected from the
  reply (the matches of the fence pattern and of the \<open>[PYTHON]\<close> pattern) hold an
  implementation header and a test header of the shape the patterns accept: \<open>def\<close>,
  whitespace, a name of word characters (not starting with \<open>test_\<close>, respectively
  \<open>test_\<close> followed by at least one word character), and a parameter list without a
  closing parenthesis inside, followed at once by \<open>):\<close>. The two headers may be in the
  same block or in two. A fenced block (tagged \<open>python\<close> or untagged) is collected
  whenever no three backquotes in a row start before its opening fence and none start
  inside it; single backquotes, as around inline code, do no harm.
\<close>

theorem extraction_outcome:
  "(fst (save_code_and_tests response session_id f) = (False, [], []) \<longleftrightarrow>
      code_blocks response = [] \<or>
      findall match_func (join ''\<newline>\<newline>'' (code_blocks response)) = [] \<or>
      findall match_test (join ''\<newline>\<newline>'' (code_blocks response)) = []) \<and>
   (fst (fst (save_code_and_tests response session_id f)) \<longleftrightarrow>
      fst (save_code_and_tests response session_id f) \<noteq> (False, [], [])) \<and>
   fst (app_save_code_and_tests response f) = fst (fst (save_code_and_tests response session_id f)) \<and>
   (fblock \<in> set (findall match_fenced response) \<union> set (findall match_python response) \<and>
    fblock = u @ ''def'' @ ws @ nm @ ''('' @ args @ ''):'' @ v \<and>
    ws \<noteq> [] \<and> (\<forall>c\<in>set ws. isspace c) \<and> nm \<noteq> [] \<and> (\<forall>c\<in>set nm. isword c) \<and>
    \<not> prefix ''test_'' nm \<and> CHR '')'' \<notin> set args \<and>
    tblock \<in> set (findall match_fenced response) \<union> set (findall match_python response) \<and>
    tblock = u' @ ''def'' @ ws' @ ''test_'' @ nm' @ ''('' @ args' @ ''):'' @ v' \<and>
    ws' \<noteq> [] \<and> (\<forall>c\<in>set ws'. isspace c) \<and> nm' \<noteq> [] \<and> (\<forall>c\<in>set nm'. isword c) \<and>
    CHR '')'' \<notin> set args'
    \<longrightarrow> (\<exists>func_code test_code.
           fst (save_code_and_tests response session_id f) = (True, func_code, test_code) \<and>
           func_code \<noteq> [] \<and> test_code \<noteq> [])) \<and>
   (\<not> sublist ''```'' (pre @ ''``'') \<and> \<not> sublist ''```'' (block @ ''``'') \<and>
    (tag = [] \<or> tag = ''python'')
    \<longrightarrow> block \<in> set (findall match_fenced (pre @ ''```'' @ tag @ ''\<newline>'' @ block @ ''```'' @ post)))"
proof (intro conjI impI)
  show "fst (save_code_and_tests response session_id f) = (False, [], []) \<longleftrightarrow>
      code_blocks response = [] \<or>
      findall match_func (join ''\<newline>\<newline>'' (code_blocks response)) = [] \<or>
      findall match_test (join ''\<newline>\<newline>'' (code_blocks response)) = []"
    unfolding save_code_and_tests_fst by simp
  show "fst (fst (save_code_and_tests response session_id f)) \<longleftrightarrow>
      fst (save_code_and_tests response session_id f) \<noteq> (False, [], [])"
    unfolding save_code_and_tests_fst by simp
  show "fst (app_save_code_and_tests response f) = fst (fst (save_code_and_tests response session_id f))"
    unfolding save_code_and_tests_fst app_save_code_and_tests_fst by simp
next
  assume h: "fblock \<in> set (findall match_fenced response) \<union> set (findall match_python response) \<and>
    fblock = u @ ''def'' @ ws @ nm @ ''('' @ args @ ''):'' @ v \<and>
    ws \<noteq> [] \<and> (\<forall>c\<in>set ws. isspace c) \<and> nm \<noteq> [] \<and> (\<forall>c\<in>set nm. isword c) \<and>
    \<not> prefix ''test_'' nm \<and> CHR '')'' \<notin> set args \<and>
    tblock \<in> set (findall match_fenced response) \<union> set (findall match_python response) \<and>
    tblock = u' @ ''def'' @ ws' @ ''test_'' @ nm' @ ''('' @ args' @ ''):'' @ v' \<and>
    ws' \<noteq> [] \<and> (\<forall>c\<in>set ws'. isspace c) \<and> nm' \<noteq> [] \<and> (\<forall>c\<in>set nm'. isword c) \<and>
    CHR '')'' \<notin> set args'"
  show "\<exists>func_code test_code.
           fst (save_code_and_tests response session_id f) = (True, func_code, test_code) \<and>
           func_code \<noteq> [] \<and> test_code \<noteq> []"
    by (rule blocks_with_headers_extracted
          [of fblock response u ws nm args v tblock u' ws' nm' args' v'])
       (use h in blast)+
next
  assume "\<not> sublist ''```'' (pre @ ''``'') \<and> \<not> sublist ''```'' (block @ ''``'') \<and>
    (tag = [] \<or> tag = ''python'')"
  then show "block \<in> set (findall match_fenced (pre @ ''```'' @ tag @ ''\<newline>'' @ block @ ''```'' @ post))"
    using fenced_block_found by blast
qed

theorem extraction_outcome_witness:
  "\<exists>func_code test_code.
     fst (save_code_and_tests inline_code_reply ''s'' Map.empty) = (True, func_code, test_code) \<and>
     func_code \<noteq> [] \<and> test_code \<noteq> []"
proof -
  define pre where "pre = ''Use `f` like this:\<newline>''"
  define block where
    "block = ''def f(x):\<newline>    return x\<newline>\<newline>def test_f():\<newline>    assert f(1) == 1\<newline>''"
  have r: "inline_code_reply = pre @ ''```'' @ ''python'' @ ''\<newline>'' @ block @ ''```'' @ []"
    by (simp add: inline_code_reply_def pre_def block_def)
  have n1: "\<not> sublist ''```'' (pre @ ''``'')" unfolding pre_def by code_simp
  have n2: "\<not> sublist ''```'' (block @ ''``'')" unfolding block_def by code_simp
  have "block \<in> set (findall match_fenced (pre @ ''```'' @ ''python'' @ ''\<newline>'' @ block @ ''```'' @ []))"
    using extraction_outcome [THEN conjunct2, THEN conjunct2, THEN conjunct2, THEN conjunct2,
        of pre block "''python''" "[]"] n1 n2 by simp
  then have mem: "block \<in> set (findall match_fenced inline_code_reply) \<union>
                          set (findall match_python inline_code_reply)"
    unfolding r by simp
  have h: "block \<in> set (findall match_fenced inline_code_reply) \<union>
                     set (findall match_python inline_code_reply) \<and>
    block = [] @ ''def'' @ '' '' @ ''f'' @ ''('' @ ''x'' @ ''):'' @
       ''\<newline>    return x\<newline>\<newline>def test_f():\<newline>    assert f(1) == 1\<newline>'' \<and>
    '' '' \<noteq> [] \<and> (\<forall>c\<in>set '' ''. isspace c) \<and> ''f'' \<noteq> [] \<and> (\<forall>c\<in>set ''f''. isword c) \<and>
    \<not> prefix ''test_'' ''f'' \<and> CHR '')'' \<notin> set ''x'' \<and>
    block \<in> set (findall match_fenced inline_code_reply) \<union>
            set (findall match_python inline_code_reply) \<and>
    block = ''def f(x):\<newline>    return x\<newline>\<newline>'' @ ''def'' @ '' '' @ ''test_'' @ ''f'' @ ''('' @ [] @ ''):'' @
       ''\<newline>    assert f(1) == 1\<newline>'' \<and>
    '' '' \<noteq> [] \<and> (\<forall>c\<in>set '' ''. isspace c) \<and> ''f'' \<noteq> [] \<and> (\<forall>c\<in>set ''f''. isword c) \<and>
    CHR '')'' \<notin> set []"
    using mem by (simp add: block_def isspace_def isword_def)
  from extraction_outcome [THEN conjunct2, THEN conjunct2, THEN conjunct2, THEN conjunct1, THEN mp, OF h]
  show ?thesis .
qed

text \<open>
  C4, as stated, fails on a test function with a nested helper: the body of the test is
  cut at the indented \<open>def\<close>, and the nested helper, with the rest of the test's body,
  is put in the implementation group.
\<close>

theorem nested_def_taken_as_boundary:
  "findall match_test nested_def_buffer = [''def test_f():\<newline>    ''] \<and>
   findall match_func nested_def_buffer =
     [''def f():\<newline>    return 1\<newline>\<newline>'',
      ''def helper():\<newline>        return 1\<newline>    assert f() == helper()'']"
  by code_simp

text \<open>
  C4, amended. The two groups are disjoint and are told apart by the \<open>test_\<close> prefix of
  the name: every text in the test group starts with a header whose name starts with
  \<open>test_\<close>, every text in the implementation group with a header whose name does not.
  A text of the test group runs up to, and does not include, the next place in the buffer
  where \<open>def\<close> is followed by whitespace, at any column and in any context, or the end of
  the buffer. A text of the implementation group runs up to the next place where \<open>def\<close>,
  whitespace and \<open>test_\<close> occur, or the end of the buffer, so that it also swallows the
  implementation definitions that follow it. Indentation plays no part. No header is
  lost: every place of the buffer where the test header pattern matches is the start of a
  text of the test group, or lies inside the header of one (a header inside the parameter
  list of another); every place where the implementation header pattern matches lies in a
  text of the implementation group.
\<close>

theorem partition_by_pattern:
  "(\<forall>g\<in>set (findall match_test buf).
      \<exists>pre rest ws nm args body.
        buf = pre @ g @ rest \<and>
        g = ''def'' @ ws @ ''test_'' @ nm @ ''('' @ args @ ''):'' @ body \<and>
        ws \<noteq> [] \<and> (\<forall>c\<in>set ws. isspace c) \<and> nm \<noteq> [] \<and> (\<forall>c\<in>set nm. isword c) \<and>
        CHR '')'' \<notin> set args \<and>
        (rest = [] \<or> (\<exists>c r. rest = ''def'' @ c # r \<and> isspace c)) \<and>
        (\<forall>b1 b2 c r. body = b1 @ b2 \<and> b2 @ rest = ''def'' @ c # r \<and> b2 \<noteq> [] \<longrightarrow> \<not> isspace c)) \<and>
   (\<forall>g\<in>set (findall match_func buf).
      \<exists>pre rest ws nm args body.
        buf = pre @ g @ rest \<and>
        g = ''def'' @ ws @ nm @ ''('' @ args @ ''):'' @ body \<and>
        ws \<noteq> [] \<and> (\<forall>c\<in>set ws. isspace c) \<and> nm \<noteq> [] \<and> (\<forall>c\<in>set nm. isword c) \<and>
        \<not> prefix ''test_'' nm \<and> CHR '')'' \<notin> set args \<and>
        (rest = [] \<or> (\<exists>sp r. rest = ''def'' @ sp @ ''test_'' @ r \<and> sp \<noteq> [] \<and> (\<forall>c\<in>set sp. isspace c))) \<and>
        (\<forall>b1 b2 sp r. body = b1 @ b2 \<and> b2 @ rest = ''def'' @ sp @ ''test_'' @ r \<and> b2 \<noteq> [] \<and> sp \<noteq> []
            \<longrightarrow> \<not> (\<forall>c\<in>set sp. isspace c))) \<and>
   set (findall match_func buf) \<inter> set (findall match_test buf) = {} \<and>
   (\<forall>pre t. buf = pre @ t \<and> test_header t \<noteq> None \<longrightarrow>
      (\<exists>pre' g rest' ws nm args body.
         buf = pre' @ g @ rest' \<and> g \<in> set (findall match_test buf) \<and>
         g = ''def'' @ ws @ ''test_'' @ nm @ ''('' @ args @ ''):'' @ body \<and>
         length pre' \<le> length pre \<and>
         length pre < length pre' + length (''def'' @ ws @ ''test_'' @ nm @ ''('' @ args @ ''):''))) \<and>
   (\<forall>pre t. buf = pre @ t \<and> func_header t \<noteq> None \<longrightarrow>
      (\<exists>pre' g rest'.
         buf = pre' @ g @ rest' \<and> g \<in> set (findall match_func buf) \<and>
         length pre' \<le> length pre \<and> length pre < length pre' + length g))"
proof (intro conjI ballI)
  fix g assume "g \<in> set (findall match_test buf)"
  from findall_mem [OF match_test_splits this] obtain pre rest where
    buf: "buf = pre @ g @ rest" and m: "match_test (g @ rest) = Some (g, rest)" by blast
  from match_test_shape [OF m] obtain ws nm args body where
    sh: "g = ''def'' @ ws @ ''test_'' @ nm @ ''('' @ args @ ''):'' @ body"
      "ws \<noteq> []" "\<forall>c\<in>set ws. isspace c" "nm \<noteq> []" "\<forall>c\<in>set nm. isword c"
      "CHR '')'' \<notin> set args" "test_ahead rest"
      "\<forall>b1 b2. body = b1 @ b2 \<and> b2 \<noteq> [] \<longrightarrow> \<not> test_ahead (b2 @ rest)" by blast
  have a: "rest = [] \<or> (\<exists>c r. rest = ''def'' @ c # r \<and> isspace c)"
    using sh(7) unfolding test_ahead_iff .
  have b: "\<forall>b1 b2 c r. body = b1 @ b2 \<and> b2 @ rest = ''def'' @ c # r \<and> b2 \<noteq> [] \<longrightarrow> \<not> isspace c"
    using sh(8) unfolding test_ahead_iff by blast
  show "\<exists>pre rest ws nm args body.
        buf = pre @ g @ rest \<and>
        g = ''def'' @ ws @ ''test_'' @ nm @ ''('' @ args @ ''):'' @ body \<and>
        ws \<noteq> [] \<and> (\<forall>c\<in>set ws. isspace c) \<and> nm \<noteq> [] \<and> (\<forall>c\<in>set nm. isword c) \<and>
        CHR '')'' \<notin> set args \<and>
        (rest = [] \<or> (\<exists>c r. rest = ''def'' @ c # r \<and> isspace c)) \<and>
        (\<forall>b1 b2 c r. body = b1 @ b2 \<and> b2 @ rest = ''def'' @ c # r \<and> b2 \<noteq> [] \<longrightarrow> \<not> isspace c)"
    using buf sh(1-6) a b by blast
next
  fix g assume "g \<in> set (findall match_func buf)"
  from findall_mem [OF match_func_splits this] obtain pre rest where
    buf: "buf = pre @ g @ rest" and m: "match_func (g @ rest) = Some (g, rest)" by blast
  from match_func_shape [OF m] obtain ws nm args body where
    sh: "g = ''def'' @ ws @ nm @ ''('' @ args @ ''):'' @ body"
      "ws \<noteq> []" "\<forall>c\<in>set ws. isspace c" "nm \<noteq> []" "\<forall>c\<in>set nm. isword c"
      "\<not> prefix ''test_'' nm" "CHR '')'' \<notin> set args" "func_ahead rest"
      "\<forall>b1 b2. body = b1 @ b2 \<and> b2 \<noteq> [] \<longrightarrow> \<not> func_ahead (b2 @ rest)" by blast
  have a: "rest = [] \<or> (\<exists>sp r. rest = ''def'' @ sp @ ''test_'' @ r \<and> sp \<noteq> [] \<and> (\<forall>c\<in>set sp. isspace c))"
    using sh(8) unfolding func_ahead_iff .
  have b: "\<forall>b1 b2 sp r. body = b1 @ b2 \<and> b2 @ rest = ''def'' @ sp @ ''test_'' @ r \<and> b2 \<noteq> [] \<and> sp \<noteq> []
            \<longrightarrow> \<not> (\<forall>c\<in>set sp. isspace c)"
    using sh(9) unfolding func_ahead_iff by blast
  show "\<exists>pre rest ws nm args body.
        buf = pre @ g @ rest \<and>
        g = ''def'' @ ws @ nm @ ''('' @ args @ ''):'' @ body \<and>
        ws \<noteq> [] \<and> (\<forall>c\<in>set ws. isspace c) \<and> nm \<noteq> [] \<and> (\<forall>c\<in>set nm. isword c) \<and>
        \<not> prefix ''test_'' nm \<and> CHR '')'' \<notin> set args \<and>
        (rest = [] \<or> (\<exists>sp r. rest = ''def'' @ sp @ ''test_'' @ r \<and> sp \<noteq> [] \<and> (\<forall>c\<in>set sp. isspace c))) \<and>
        (\<forall>b1 b2 sp r. body = b1 @ b2 \<and> b2 @ rest = ''def'' @ sp @ ''test_'' @ r \<and> b2 \<noteq> [] \<and> sp \<noteq> []
            \<longrightarrow> \<not> (\<forall>c\<in>set sp. isspace c))"
    using buf sh(1-7) a b by blast
next
  show "set (findall match_func buf) \<inter> set (findall match_test buf) = {}"
  proof (rule ccontr)
    assume "set (findall match_func buf) \<inter> set (findall match_test buf) \<noteq> {}"
    then obtain g where gf: "g \<in> set (findall match_func buf)" and gt: "g \<in> set (findall match_test buf)"
      by blast
    from findall_mem [OF match_func_splits gf] obtain rf where "match_func (g @ rf) = Some (g, rf)"
      by blast
    from match_func_shape [OF this] obtain ws nm args body where
      f: "g = ''def'' @ ws @ nm @ ''('' @ (args @ ''):'' @ body)" "\<forall>c\<in>set ws. isspace c" "nm \<noteq> []"
         "\<forall>c\<in>set nm. isword c" "\<not> prefix ''test_'' nm" by auto
    from findall_mem [OF match_test_splits gt] obtain rt where "match_test (g @ rt) = Some (g, rt)"
      by blast
    from match_test_shape [OF this] obtain ws' nm' args' body' where
      t: "g = ''def'' @ ws' @ ''test_'' @ (nm' @ ''('' @ args' @ ''):'' @ body')" "\<forall>c\<in>set ws'. isspace c"
      by auto
    from headers_exclusive [OF f t] show False .
  qed
next
  show "\<forall>pre t. buf = pre @ t \<and> test_header t \<noteq> None \<longrightarrow>
      (\<exists>pre' g rest' ws nm args body.
         buf = pre' @ g @ rest' \<and> g \<in> set (findall match_test buf) \<and>
         g = ''def'' @ ws @ ''test_'' @ nm @ ''('' @ args @ ''):'' @ body \<and>
         length pre' \<le> length pre \<and>
         length pre < length pre' + length (''def'' @ ws @ ''test_'' @ nm @ ''('' @ args @ ''):''))"
    using test_header_collected by blast
next
  show "\<forall>pre t. buf = pre @ t \<and> func_header t \<noteq> None \<longrightarrow>
      (\<exists>pre' g rest'.
         buf = pre' @ g @ rest' \<and> g \<in> set (findall match_func buf) \<and>
         length pre' \<le> length pre \<and> length pre < length pre' + length g)"
    using func_header_collected by blast
qed

theorem partition_by_pattern_witness:
  "''def test_f():\<newline>    '' \<in> set (findall match_test nested_def_buffer) \<and>
   (\<exists>pre rest ws nm args body.
        nested_def_buffer = pre @ ''def test_f():\<newline>    '' @ rest \<and>
        ''def test_f():\<newline>    '' = ''def'' @ ws @ ''test_'' @ nm @ ''('' @ args @ ''):'' @ body \<and>
        ws \<noteq> [] \<and> (\<forall>c\<in>set ws. isspace c) \<and> nm \<noteq> [] \<and> (\<forall>c\<in>set nm. isword c) \<and>
        CHR '')'' \<notin> set args \<and>
        (rest = [] \<or> (\<exists>c r. rest = ''def'' @ c # r \<and> isspace c)) \<and>
        (\<forall>b1 b2 c r. body = b1 @ b2 \<and> b2 @ rest = ''def'' @ c # r \<and> b2 \<noteq> [] \<longrightarrow> \<not> isspace c)) \<and>
   set (findall match_func nested_def_buffer) \<inter> set (findall match_test nested_def_buffer) = {} \<and>
   (\<exists>pre' g rest' ws nm args body.
      nested_def_buffer = pre' @ g @ rest' \<and> g \<in> set (findall match_test nested_def_buffer) \<and>
      g = ''def'' @ ws @ ''test_'' @ nm @ ''('' @ args @ ''):'' @ body \<and>
      length pre' \<le> length ''def f():\<newline>    return 1\<newline>\<newline>'' \<and>
      length ''def f():\<newline>    return 1\<newline>\<newline>''
        < length pre' + length (''def'' @ ws @ ''test_'' @ nm @ ''('' @ args @ ''):'')) \<and>
   (\<exists>pre' g rest'.
      nested_def_buffer = pre' @ g @ rest' \<and> g \<in> set (findall match_func nested_def_buffer) \<and>
      length pre' \<le> length ([]::string) \<and> length ([]::string) < length pre' + length g)"
proof -
  note th = partition_by_pattern [of nested_def_buffer]
  have m: "''def test_f():\<newline>    '' \<in> set (findall match_test nested_def_buffer)"
    by code_simp
  have t: "nested_def_buffer = ''def f():\<newline>    return 1\<newline>\<newline>'' @
             ''def test_f():\<newline>    def helper():\<newline>        return 1\<newline>    assert f() == helper()'' \<and>
           test_header ''def test_f():\<newline>    def helper():\<newline>        return 1\<newline>    assert f() == helper()'' \<noteq> None"
    by code_simp
  have f: "nested_def_buffer = [] @ nested_def_buffer \<and> func_header nested_def_buffer \<noteq> None"
    by code_simp
  note c = th [THEN conjunct2, THEN conjunct2, THEN conjunct2, THEN conjunct1, THEN spec, THEN spec, THEN mp, OF t]
  note d = th [THEN conjunct2, THEN conjunct2, THEN conjunct2, THEN conjunct2, THEN spec, THEN spec, THEN mp, OF f]
  show ?thesis
    using m bspec [OF th [THEN conjunct1] m] th [THEN conjunct2, THEN conjunct2, THEN conjunct1] c d
    by - (rule conjI, assumption, rule conjI, assumption, rule conjI, assumption,
          rule conjI, assumption, assumption)
qed

section \<open>Results: persistence\<close>

lemma session_files_distinct: "func_file_of session_id \<noteq> test_file_of session_id"
  by (simp add: func_file_of_def test_file_of_def)

text \<open>
  C8, as stated, fails on the bytes of the implementation file: it is not the
  implementation text verbatim, a newline is written after it.
\<close>

theorem persist_appends_newline:
  "persist ''s'' ''def f(): pass'' ''def test_f(): pass'' Map.empty (func_file_of ''s'')
     \<noteq> Some ''def f(): pass''"
  by (simp add: persist_def func_file_of_def test_file_of_def)

text \<open>
  C8, amended. Persisting twice with the same session identifier and the same texts leaves
  the file system as persisting once does. The implementation file holds the
  implementation text followed by one newline; the test file holds the import of pytest,
  the wildcard import of the session's implementation module, a blank line, the test text
  and one newline. A later persist for the same identifier replaces what an earlier one
  wrote: the result does not depend on the earlier texts.
\<close>

theorem persist_idempotent_overwriting:
  "persist session_id func_code test_code (persist session_id func_code test_code f) =
     persist session_id func_code test_code f \<and>
   persist session_id func_code test_code f (func_file_of session_id) =
     Some (func_code @ ''\<newline>'') \<and>
   persist session_id func_code test_code f (test_file_of session_id) =
     Some (''import pytest\<newline>from generated_code_'' @ session_id @ '' import *\<newline>\<newline>'' @
           test_code @ ''\<newline>'') \<and>
   persist session_id func_code test_code (persist session_id old_func_code old_test_code f) =
     persist session_id func_code test_code f"
  using session_files_distinct [of session_id]
  by (auto simp add: persist_def Let_def fun_upd_twist)

section \<open>Results: test executor\<close>

text \<open>
  C5, as stated, fails on a passing run: the web executor returns the standard output
  alone, and what the runner wrote to standard error is dropped.
\<close>

theorem run_tests_pass_omits_stderr:
  "fst (run_tests env_pass_with_warning ''s'' world0) = Inr (True, ''1 passed'') \<and>
   fst (run_tests env_pass_with_warning ''s'' world0)
     \<noteq> Inr (True, ''1 passed'' @ ''\<newline>'' @ ''warning'')"
  by (simp add: run_tests_def env_pass_with_warning_def world0_def)

text \<open>
  C5, amended. Both executors start pytest with \<open>--maxfail=1\<close>. When \<open>subprocess.run\<close>
  returns, no exception is raised, whatever the exit status, and the run is reported as
  passed exactly when the exit status is zero. The web executor returns the standard
  output alone on a pass and the standard output, a newline and the standard error on a
  failure; the command-line executor returns no text on a pass and the standard error
  alone on a failure. Whatever \<open>subprocess.run\<close> raises leaves the executor as it is. In
  the web loop a failed test run is an attempt record, with the returned text as its test
  output and its error, and a passed one a record marked as a success.
\<close>

theorem run_tests_contract:
  "spawned (snd (run_tests E session_id w)) =
     spawned w @ [[''pytest'', ''test_generated_code_'' @ session_id @ ''.py'', ''-v'',
                   ''--maxfail=1'', ''--disable-warnings'']] \<and>
   fst (run_tests E session_id w) =
     (case subprocess_run E (length (spawned w)) (run_tests_argv session_id) (files w) of
        Raised x \<Rightarrow> Inl x
      | Exited returncode out err \<Rightarrow>
          Inr (returncode = 0, if returncode = 0 then out else out @ ''\<newline>'' @ err)) \<and>
   spawned (snd (app_run_tests E w)) =
     spawned w @ [[''pytest'', ''test_generated_code.py'', ''-v'', ''--maxfail=1'',
                   ''--disable-warnings'']] \<and>
   fst (app_run_tests E w) =
     (case subprocess_run E (length (spawned w)) app_run_tests_argv (files w) of
        Raised x \<Rightarrow> Inl x
      | Exited returncode out err \<Rightarrow>
          Inr (returncode = 0, if returncode = 0 then None else Some err)) \<and>
   (next_reply E prompt session_id attempt last_error w = Inr (result, w1) \<and>
    save_code_and_tests result session_id (files w1) = ((True, func_code, test_code), f') \<and>
    subprocess_run E (length (spawned w1)) (run_tests_argv session_id) f' = Exited returncode out err
    \<longrightarrow>
      fst (cycle E prompt session_id attempt last_error w) =
        (if returncode = 0
         then Passed \<lparr>att_attempt = attempt + 1, att_ai_response = result, att_success = True,
                      att_func_code = func_code, att_test_code = test_code,
                      att_test_output = out, att_error = []\<rparr>
         else Failed \<lparr>att_attempt = attempt + 1, att_ai_response = result, att_success = False,
                      att_func_code = func_code, att_test_code = test_code,
                      att_test_output = out @ ''\<newline>'' @ err,
                      att_error = out @ ''\<newline>'' @ err\<rparr>
                (out @ ''\<newline>'' @ err)))"
  by (auto simp add: run_tests_def app_run_tests_def run_tests_argv_def app_run_tests_argv_def
        test_file_of_def cycle_def Let_def split: proc_outcome.splits)

theorem run_tests_contract_witness:
  "fst (cycle env_failing ''p'' ''s'' 0 None world0) =
     Failed \<lparr>att_attempt = 0 + 1, att_ai_response = plain_reply, att_success = False,
             att_func_code = ''def f(x):\<newline>    return x'',
             att_test_code = ''def test_f():\<newline>    assert f(1) == 1'',
             att_test_output = ''1 failed'' @ ''\<newline>'' @ ''AssertionError'',
             att_error = ''1 failed'' @ ''\<newline>'' @ ''AssertionError''\<rparr>
       (''1 failed'' @ ''\<newline>'' @ ''AssertionError'')"
proof -
  define w1 where
    "w1 = snd (generate_task env_failing (full_prompt ''p'') default_model default_temperature world0)"
  have h: "next_reply env_failing ''p'' ''s'' 0 None world0 = Inr (plain_reply, w1) \<and>
    save_code_and_tests plain_reply ''s'' (files w1) =
      ((True, ''def f(x):\<newline>    return x'', ''def test_f():\<newline>    assert f(1) == 1''),
       persist ''s'' ''def f(x):\<newline>    return x'' ''def test_f():\<newline>    assert f(1) == 1'' (files w1)) \<and>
    subprocess_run env_failing (length (spawned w1)) (run_tests_argv ''s'')
      (persist ''s'' ''def f(x):\<newline>    return x'' ''def test_f():\<newline>    assert f(1) == 1'' (files w1))
      = Exited 1 ''1 failed'' ''AssertionError''"
    by (simp add: next_reply_def w1_def generate_task_def env_failing_def save_plain_reply world0_def)
  from run_tests_contract [THEN conjunct2, THEN conjunct2, THEN conjunct2, THEN conjunct2, THEN mp, OF h]
  show ?thesis by simp
qed

section \<open>Results: retry orchestrators\<close>

text \<open>
  C1. The web orchestrator keeps the bound (\<open>generate_retry_bound\<close>); the
  command-line orchestrator does not. With a model server that is down, every reply is
  the error text and holds no code block. \<open>run_with_retry\<close> makes one generation call,
  with the original prompt, and then raises on the second attempt: it opens
  \<open>generated_code.py\<close>, which does not exist, or, when an earlier run left one, reads
  \<open>last_error\<close>, a local variable that no parse failure ever assigns. It makes one
  call, not three, and returns nothing.
\<close>

theorem run_with_retry_stops_after_parse_failure:
  "fst (run_with_retry env_offline (full_prompt ''p'') ''p'' 3 world0) = Inl FileNotFoundError \<and>
   map payload_prompt (posted (snd (run_with_retry env_offline (full_prompt ''p'') ''p'' 3 world0)))
     = [full_prompt ''p''] \<and>
   fst (run_with_retry env_offline (full_prompt ''p'') ''p'' 3 world_stale) = Inl UnboundLocalError \<and>
   map payload_prompt (posted (snd (run_with_retry env_offline (full_prompt ''p'') ''p'' 3 world_stale)))
     = [full_prompt ''p'']"
  by (simp add: run_with_retry_def app_cycle_def app_next_reply_def generate_task_def env_offline_def world0_def
        world_stale_def app_save_offline_reply request_payload_def range_3 read_text_def)

text \<open>
  C2. Both orchestrators let an exception through. The web orchestrator does not catch
  the \<open>FileNotFoundError\<close> of a runner that cannot be started, and neither does the
  command-line one, which also raises \<open>UnboundLocalError\<close> on the attempt after a reply
  that failed extraction.
\<close>

theorem orchestrators_raise:
  "fst (generate env_no_pytest request_p world0) = Inl FileNotFoundError \<and>
   fst (run_with_retry env_no_pytest (full_prompt ''p'') ''p'' 3 world0) = Inl FileNotFoundError \<and>
   fst (run_with_retry env_offline (full_prompt ''p'') ''p'' 3 world_stale) = Inl UnboundLocalError"
  by (simp add: generate_def request_p_def cycle_def next_reply_def run_with_retry_def app_cycle_def app_next_reply_def
        generate_task_def env_offline_def env_no_pytest_def world0_def world_stale_def
        app_save_offline_reply save_plain_reply app_save_plain_reply run_tests_def app_run_tests_def
        request_payload_def range_3 read_text_def)

text \<open>
  C6, as stated, fails on the retry after a reply that could not be parsed when no
  implementation file exists: the web orchestrator posts the original enhanced prompt
  again, and the failure text of the preceding cycle is not in it.
\<close>

theorem retry_after_parse_failure_repeats_prompt:
  "map att_error (attempts_of (fst (generate env_offline request_p world0))) =
     [''Failed to parse code blocks from AI response'',
      ''Failed to parse code blocks from AI response'',
      ''Failed to parse code blocks from AI response''] \<and>
   map payload_prompt (posted (snd (generate env_offline request_p world0))) =
     [full_prompt ''p'', full_prompt ''p'', full_prompt ''p''] \<and>
   \<not> sublist ''Failed to parse code blocks'' (full_prompt ''p'')"
  using generate_offline generate_offline_prompts no_failure_text_in_full_prompt by simp

text \<open>
  C6, amended, for the web orchestrator. In every run that returns a body, the prompts
  posted are the original enhanced prompt for the first attempt and, for each later
  attempt, the prompt that the record of the attempt just before calls for
  (\<open>expected_retry_prompts\<close>). When the session's implementation file exists, that is the
  fix-up prompt holding the task description, the file as read back (CR LF and CR turned
  into LF) and the failure text of the attempt just before: the error text of its record
  when it extracted an implementation, which is then what the file holds, followed by a
  newline, and \<open>Failed to parse code blocks\<close> when it extracted nothing, in which case
  the file is that of an earlier attempt. No failure text of an earlier attempt is in it.
  When there is no implementation file, it is the original enhanced prompt again. The
  file's content is in the prompt literally when it holds no carriage return.
\<close>

theorem retry_prompts_follow_records:
  "fst (generate E data w) = Inr resp \<Longrightarrow>
     map payload_prompt (drop (length (posted w)) (posted (snd (generate E data w)))) =
       take (length (attempts_of (Inr resp)))
         (full_prompt (case data ''prompt'' of Some p \<Rightarrow> p | None \<Rightarrow> []) #
          expected_retry_prompts (case data ''prompt'' of Some p \<Rightarrow> p | None \<Rightarrow> [])
            (files w (func_file_of (case data ''session_id'' of Some s \<Rightarrow> s | None \<Rightarrow> ''default'')))
            (attempts_of (Inr resp))) \<and>
     (CHR 0x0D \<notin> set content \<longrightarrow>
        expected_prompt prompt failure (Some content) =
          ''The following code was generated for the task: '' @ [CHR 0x27] @ prompt @
            [CHR 0x27] @ ''\<newline>\<newline>'' @
          ''Previous code:\<newline>'' @ content @ ''\<newline>\<newline>'' @
          ''But the tests failed with this error:\<newline>'' @ failure @ fix_tail)"
proof (intro conjI impI)
  assume "CHR 0x0D \<notin> set content"
  then show "expected_prompt prompt failure (Some content) =
          ''The following code was generated for the task: '' @ [CHR 0x27] @ prompt @
            [CHR 0x27] @ ''\<newline>\<newline>'' @
          ''Previous code:\<newline>'' @ content @ ''\<newline>\<newline>'' @
          ''But the tests failed with this error:\<newline>'' @ failure @ fix_tail"
    by (simp add: expected_prompt_def universal_newlines_id)
next
  assume h: "fst (generate E data w) = Inr resp"
  define p where "p = (case data ''prompt'' of Some p \<Rightarrow> p | None \<Rightarrow> [])"
  define session_id where
    "session_id = (case data ''session_id'' of Some s \<Rightarrow> s | None \<Rightarrow> ''default'')"
  show "map payload_prompt (drop (length (posted w)) (posted (snd (generate E data w)))) =
       take (length (attempts_of (Inr resp)))
         (full_prompt (case data ''prompt'' of Some p \<Rightarrow> p | None \<Rightarrow> []) #
          expected_retry_prompts (case data ''prompt'' of Some p \<Rightarrow> p | None \<Rightarrow> [])
            (files w (func_file_of (case data ''session_id'' of Some s \<Rightarrow> s | None \<Rightarrow> ''default'')))
            (attempts_of (Inr resp)))"
    unfolding p_def [symmetric] session_id_def [symmetric]
  proof (cases "p = []")
    case True
    then have "generate E data w = (Inr (BadRequest ''No prompt provided''), w)"
      by (simp add: generate_def p_def Let_def)
    with h show "map payload_prompt (drop (length (posted w)) (posted (snd (generate E data w)))) =
       take (length (attempts_of (Inr resp)))
         (full_prompt p # expected_retry_prompts p (files w (func_file_of session_id)) (attempts_of (Inr resp)))"
      by auto
  next
    case False
    then have g: "generate E data w = generate_loop E p session_id 3 [0, 1, 2] None [] w"
      by (simp add: generate_def p_def session_id_def Let_def range_3)
    obtain result w1 where
      gt: "generate_task E (full_prompt p) default_model default_temperature w = (result, w1)"
      by (metis prod.exhaust)
    have nr: "next_reply E p session_id 0 None w = Inr (result, w1)"
      unfolding next_reply_first gt ..
    have w1: "posted w1 = posted w @ [request_payload (full_prompt p) default_model default_temperature]"
      "files w1 = files w"
      using generate_task_world [of E "full_prompt p" default_model default_temperature w] gt by auto
    obtain out w' where c: "cycle E p session_id 0 None w = (out, w')"
      by (cases "cycle E p session_id 0 None w")
    have pw': "posted w' = posted w @ [request_payload (full_prompt p) default_model default_temperature]"
      using cycle_after_reply(1) [OF nr c] w1 by simp
    show "map payload_prompt (drop (length (posted w)) (posted (snd (generate E data w)))) =
       take (length (attempts_of (Inr resp)))
         (full_prompt p # expected_retry_prompts p (files w (func_file_of session_id)) (attempts_of (Inr resp)))"
    proof (cases out)
      case (Passed r)
      with c h have "attempts_of (Inr resp) = [r]" unfolding g by auto
      moreover have "map payload_prompt (drop (length (posted w)) (posted (snd (generate E data w))))
          = [full_prompt p]"
        unfolding g using c Passed pw' by (simp add: request_payload_def)
      ultimately show ?thesis by simp
    next
      case (Escaped x)
      with c h show ?thesis unfolding g by simp
    next
      case (Failed r e)
      define final where "final = snd (generate_loop E p session_id 3 [1, 2] (Some e) [r] w')"
      have step: "generate_loop E p session_id 3 [0, 1, 2] None [] w =
                  generate_loop E p session_id 3 [1, 2] (Some e) [r] w'"
        using c Failed by simp
      from h have "fst (generate_loop E p session_id 3 [1, 2] (Some e) [r] w') = Inr resp"
        unfolding g step .
      from generate_loop_retry_prompts [OF this] obtain new where
        at: "attempts_of (Inr resp) = [r] @ new" and
        pr: "map payload_prompt (drop (length (posted w')) (posted final)) =
               take (length new)
                 (expected_prompt p e (files w' (func_file_of session_id)) #
                  expected_retry_prompts p (files w' (func_file_of session_id)) new)"
        unfolding final_def by auto
      from generate_loop_posted_prefix [of E p session_id 3 "[1, 2]" "Some e" "[r]" w']
      obtain qs where qs: "posted final = posted w' @ qs" unfolding final_def by blast
      from cycle_after_reply(2) [OF nr c Failed] w1(2) have
        st: "files w' (func_file_of session_id) =
               (if att_func_code r \<noteq> [] then Some (att_func_code r @ ''\<newline>'')
                else files w (func_file_of session_id))"
            "e = (if att_func_code r \<noteq> [] then att_error r else ''Failed to parse code blocks'')"
        by simp_all
      have ex: "expected_retry_prompts p (files w (func_file_of session_id)) (r # new) =
          expected_prompt p e (files w' (func_file_of session_id)) #
          expected_retry_prompts p (files w' (func_file_of session_id)) new"
        using st by (simp add: Let_def)
      have "map payload_prompt (drop (length (posted w)) (posted final)) =
          full_prompt p # map payload_prompt (drop (length (posted w')) (posted final))"
        unfolding qs pw' by (simp add: request_payload_def)
      then have "map payload_prompt (drop (length (posted w)) (posted final)) =
          take (length (r # new))
            (full_prompt p # expected_retry_prompts p (files w (func_file_of session_id)) (r # new))"
        unfolding pr ex by simp
      with at show ?thesis unfolding g step final_def [symmetric] by simp
    qed
  qed
qed

theorem retry_prompts_follow_records_witness:
  "map payload_prompt
     (drop (length (posted world0)) (posted (snd (generate env_failing request_p world0)))) =
     [full_prompt ''p'',
      ''The following code was generated for the task: '' @ [CHR 0x27] @ ''p'' @
        [CHR 0x27] @ ''\<newline>\<newline>'' @
      ''Previous code:\<newline>'' @ ''def f(x):\<newline>    return x\<newline>'' @ ''\<newline>\<newline>'' @
      ''But the tests failed with this error:\<newline>'' @ ''1 failed\<newline>AssertionError'' @ fix_tail,
      ''The following code was generated for the task: '' @ [CHR 0x27] @ ''p'' @
        [CHR 0x27] @ ''\<newline>\<newline>'' @
      ''Previous code:\<newline>'' @ ''def f(x):\<newline>    return x\<newline>'' @ ''\<newline>\<newline>'' @
      ''But the tests failed with this error:\<newline>'' @ ''1 failed\<newline>TypeError'' @ fix_tail]"
proof -
  note th = retry_prompts_follow_records [OF generate_failing, THEN conjunct1]
  have p: "(case request_p ''prompt'' of Some p \<Rightarrow> p | None \<Rightarrow> []) = ''p''"
    by (simp add: request_p_def)
  show ?thesis
    unfolding th p
    by (simp add: expected_prompt_def failing_record_def Let_def)
qed

text \<open>
  C7, as stated, fails on the command-line orchestrator, which removes nothing: after a
  successful run both files are still there.
\<close>

theorem run_with_retry_keeps_files:
  "fst (run_with_retry env_passing (full_prompt ''p'') ''p'' 3 world0) = Inr True \<and>
   files (snd (run_with_retry env_passing (full_prompt ''p'') ''p'' 3 world0)) ''generated_code.py''
     = Some ''def f(x):\<newline>    return x\<newline>'' \<and>
   files (snd (run_with_retry env_passing (full_prompt ''p'') ''p'' 3 world0)) ''test_generated_code.py''
     = Some (''import pytest\<newline>from generated_code import *\<newline>\<newline>'' @
             ''def test_f():\<newline>    assert f(1) == 1\<newline>'')"
  by (simp add: run_with_retry_def app_cycle_def app_next_reply_def generate_task_def env_passing_def world0_def
        app_save_plain_reply app_run_tests_def app_persist_def range_3)

text \<open>
  C7, amended, for the web orchestrator. Whenever \<open>generate\<close> returns the success body
  or the failure body, neither the implementation file nor the test file of the session
  exists afterwards.
\<close>

theorem generate_cleans_up:
  "fst (generate E data w) = Inr (Succeeded attempts func_code test_code test_output) \<or>
   fst (generate E data w) = Inr (Exhausted attempts msg) \<Longrightarrow>
     files (snd (generate E data w))
       (func_file_of (case data ''session_id'' of Some s \<Rightarrow> s | None \<Rightarrow> ''default'')) = None \<and>
     files (snd (generate E data w))
       (test_file_of (case data ''session_id'' of Some s \<Rightarrow> s | None \<Rightarrow> ''default'')) = None"
proof -
  assume h: "fst (generate E data w) = Inr (Succeeded attempts func_code test_code test_output) \<or>
   fst (generate E data w) = Inr (Exhausted attempts msg)"
  define prompt where "prompt = (case data ''prompt'' of Some p \<Rightarrow> p | None \<Rightarrow> [])"
  define session_id where "session_id = (case data ''session_id'' of Some s \<Rightarrow> s | None \<Rightarrow> ''default'')"
  have ne: "prompt \<noteq> []"
    using h by (auto simp: generate_def prompt_def Let_def split: if_splits)
  then have g: "generate E data w = generate_loop E prompt session_id 3 [0..<3] None [] w"
    by (simp add: generate_def prompt_def session_id_def Let_def)
  from h obtain resp where "fst (generate_loop E prompt session_id 3 [0..<3] None [] w) = Inr resp"
    unfolding g by blast
  from generate_loop_returns_clean [OF this] show ?thesis
    unfolding g session_id_def .
qed

theorem generate_cleans_up_witness:
  "fst (generate env_passing request_p world0) =
     Inr (Succeeded
       [\<lparr>att_attempt = 1, att_ai_response = plain_reply, att_success = True,
         att_func_code = ''def f(x):\<newline>    return x'',
         att_test_code = ''def test_f():\<newline>    assert f(1) == 1'',
         att_test_output = ''1 passed'', att_error = []\<rparr>]
       ''def f(x):\<newline>    return x'' ''def test_f():\<newline>    assert f(1) == 1'' ''1 passed'') \<and>
   files (snd (generate env_passing request_p world0)) (func_file_of ''s'') = None \<and>
   files (snd (generate env_passing request_p world0)) (test_file_of ''s'') = None"
proof -
  have s: "(case request_p ''session_id'' of Some s \<Rightarrow> s | None \<Rightarrow> ''default'') = ''s''"
    by (simp add: request_p_def)
  from generate_cleans_up [of env_passing request_p world0, OF disjI1, OF generate_passing]
  show ?thesis unfolding s using generate_passing by simp
qed

end
